theory Spec2Isabelle
  imports Main "HOL-Library.Word"
begin

text \<open>
  A shallow embedding of the \<open>MarkdownParser\<close> component of
  react-native-markdown-parser (\<open>src/components/MarkdownParser.tsx\<close>): the inline
  extensions it registers with the tokenizer, the three render helpers that turn a token
  tree into React elements, and the component function with its error boundary. The
  tokenizer proper (\<open>marked.lexer\<close>) and React are outside the repository.
\<close>

section \<open>JavaScript strings\<close>

text \<open>
  A JavaScript string is a sequence of UTF-16 code units. The bullet glyphs of the list
  builder lie outside ASCII, so strings are modelled as lists of 16-bit words; an ASCII
  literal of the source is written \<open>js ''...''\<close>.
\<close>

type_synonym code_unit = "16 word"
type_synonym js_string = "code_unit list"

definition js :: "string \<Rightarrow> js_string" where
  "js s = map (\<lambda>c. of_nat (of_char c)) s"

text \<open>Template-literal conversion of a non-negative integer (an array index): decimal digits.\<close>

definition digit :: "nat \<Rightarrow> code_unit" where
  "digit d = of_nat (48 + d)"

function dec :: "nat \<Rightarrow> js_string" where
  "dec n = (if n < 10 then [digit n] else dec (n div 10) @ [digit (n mod 10)])"
  by pat_completeness auto
termination
  by (relation "measure id") auto

declare dec.simps [simp del]

text \<open>
  \<open>String.prototype.trim\<close> removes the code units of ECMAScript's WhiteSpace and
  LineTerminator productions from both ends.
\<close>

definition is_space :: "code_unit \<Rightarrow> bool" where
  "is_space c = (c \<in> set [0x09, 0x0A, 0x0B, 0x0C, 0x0D, 0x20, 0xA0, 0x1680,
     0x2000, 0x2001, 0x2002, 0x2003, 0x2004, 0x2005, 0x2006, 0x2007, 0x2008, 0x2009, 0x200A,
     0x2028, 0x2029, 0x202F, 0x205F, 0x3000, 0xFEFF])"

definition trim :: "js_string \<Rightarrow> js_string" where
  "trim s = rev (dropWhile is_space (rev (dropWhile is_space s)))"

section \<open>Tokens\<close>

text \<open>
  Tokens are untyped objects (\<open>any\<close>) in the source. A property that holds an object
  or a string can be absent (\<open>undefined\<close>), \<open>null\<close> or present; the code treats the
  three differently (a default parameter replaces only \<open>undefined\<close>, \<open>||\<close> and
  \<open>?.\<close> replace both, a method call on either raises a TypeError).
\<close>

datatype 'a field = Undefined | Null | Val 'a

text \<open>
  One constructor carries every property the component reads: \<open>type\<close>, \<open>text\<close>,
  \<open>tokens\<close>, \<open>href\<close>, \<open>depth\<close>, \<open>items\<close>, \<open>ordered\<close>, \<open>task\<close>,
  \<open>checked\<close>, \<open>header\<close> and \<open>rows\<close>, together with \<open>raw\<close> (the matched source
  text, set by the extension tokenizers) and \<open>start\<close> (the first number of an ordered
  list as written in the source), which the component never reads. List items and table
  cells are tokens too (a cell has no \<open>type\<close>). The flags \<open>ordered\<close>, \<open>task\<close>
  and \<open>checked\<close> are only tested for truthiness.
\<close>

datatype token = Token
  (type: "js_string field")
  (raw: js_string)
  (text': "js_string field")
  (tokens: "token list field")
  (href: "js_string field")
  (depth: "nat field")
  (items: "token list field")
  (ordered: bool)
  (start: "nat field")
  (task: bool)
  (checked: bool)
  (header: "token list field")
  (rows: "token list list field")

text \<open>An object literal with the three properties the extension tokenizers set.\<close>

definition extension_token :: "js_string \<Rightarrow> js_string \<Rightarrow> js_string \<Rightarrow> token" where
  "extension_token ty rw tx =
     Token (Val ty) rw (Val tx) Undefined Undefined Undefined Undefined False Undefined False False
       Undefined Undefined"

section \<open>The inline extensions of the tokenizer\<close>

text \<open>
  Each extension's rule has the shape \<open>/^OPEN([^x]+)x/\<close>: a literal prefix, a greedy
  non-empty run of code units other than \<open>x\<close>, and a closing \<open>x\<close>. The superscript
  rule \<open>/^\^([^^]+)\^/\<close> and the subscript rule \<open>/^~([^~]+)~/\<close> are the two
  studied here.
  \<open>backtrack x s k\<close> is the regular expression engine on the run: it tries the run
  lengths \<open>k, k - 1, ..., 1\<close> and takes the first after which \<open>x\<close> stands.
  \<open>exec_rule\<close> returns \<open>(match[0], match[1])\<close>, or \<open>None\<close> for \<open>null\<close>.
\<close>

fun backtrack :: "'a \<Rightarrow> 'a list \<Rightarrow> nat \<Rightarrow> 'a list option" where
  "backtrack x s 0 = None"
| "backtrack x s (Suc k) =
     (if Suc k < length s \<and> s ! Suc k = x then Some (take (Suc k) s) else backtrack x s k)"

definition exec_rule :: "'a list \<Rightarrow> 'a \<Rightarrow> 'a list \<Rightarrow> ('a list \<times> 'a list) option" where
  "exec_rule opn x src =
     (if length opn \<le> length src \<and> take (length opn) src = opn
      then (let s = drop (length opn) src in
            case backtrack x s (length (takeWhile (\<lambda>c. c \<noteq> x) s)) of
              None \<Rightarrow> None
            | Some inner \<Rightarrow> Some (opn @ inner @ [x], inner))
      else None)"

definition caret :: code_unit where
  "caret = 0x5E"

definition tilde :: code_unit where
  "tilde = 0x7E"

definition superscript_tokenizer :: "js_string \<Rightarrow> token option" where
  "superscript_tokenizer src =
     (case exec_rule [caret] caret src of
        None \<Rightarrow> None
      | Some (m0, m1) \<Rightarrow> Some (extension_token (js ''superscript'') m0 (trim m1)))"

definition subscript_tokenizer :: "js_string \<Rightarrow> token option" where
  "subscript_tokenizer src =
     (case exec_rule [tilde] tilde src of
        None \<Rightarrow> None
      | Some (m0, m1) \<Rightarrow> Some (extension_token (js ''subscript'') m0 (trim m1)))"

section \<open>The render tree\<close>

text \<open>
  The component builds React elements. An element has a component, an optional
  \<open>key\<close>, its other props and its children. A child is an element, an array of
  children, or a primitive value: a string, \<open>null\<close> or \<open>undefined\<close>
  (\<open>Literal\<close>). \<open>Styles s\<close> is the entry \<open>styles.s\<close> of the built-in style
  sheet, \<open>CustomStyles s\<close> the caller's \<open>customStyles.s\<close>; the inline objects
  \<open>{ fontSize }\<close> and \<open>{ marginLeft }\<close> are \<open>FontSize\<close> and \<open>MarginLeft\<close>.
\<close>

datatype component = Text | View | Image | Video | ScrollView | ErrorBoundary

datatype style = Styles string | CustomStyles string | FontSize nat | MarginLeft nat

datatype jsx_prop =
    Style "style list"
  | ContentContainerStyle "style list"
  | OnPressOpenURL "js_string field"
  | AccessibilityRole js_string
  | AccessibilityLabel "js_string field"
  | SourceUri "js_string field"
  | Controls
  | ResizeMode js_string
  | Paused

datatype node =
    Literal "js_string field"
  | Array "node list"
  | Element component "js_string option" "jsx_prop list" "node list"

section \<open>Exceptions and diagnostics\<close>

text \<open>
  A computation of the component either returns a value or throws; on the way it may
  write diagnostics with \<open>console.warn\<close>. Its result is the list of diagnostics
  written, in order, and the exception (\<open>Inl\<close>) or the value (\<open>Inr\<close>). The only
  exception the modelled code can raise is the TypeError of a property access or method
  call on \<open>null\<close> or \<open>undefined\<close>.
\<close>

datatype error = TypeError

type_synonym 'a result = "js_string list \<times> (error + 'a)"

definition return :: "'a \<Rightarrow> 'a result" where
  "return a = ([], Inr a)"

definition throw :: "error \<Rightarrow> 'a result" where
  "throw e = ([], Inl e)"

definition console_warn :: "js_string \<Rightarrow> unit result" where
  "console_warn s = ([s], Inr ())"

text \<open>Sequencing: the second computation runs only when the first returned.\<close>

definition bind :: "'a result \<Rightarrow> ('a \<Rightarrow> 'b result) \<Rightarrow> 'b result" where
  "bind m f = (case m of
      (w, Inl e) \<Rightarrow> (w, Inl e)
    | (w, Inr a) \<Rightarrow> (case f a of (w', r) \<Rightarrow> (w @ w', r)))"

text \<open>
  \<open>Array.prototype.map\<close> with a callback of the element and its index: the elements are
  visited from left to right, and an exception in the callback ends the loop.
  \<open>map_index f i xs\<close> is the loop from index \<open>i\<close> on.
\<close>

fun map_index :: "('a \<Rightarrow> nat \<Rightarrow> 'b result) \<Rightarrow> nat \<Rightarrow> 'a list \<Rightarrow> 'b list result" where
  "map_index f i [] = return []"
| "map_index f i (x # xs) =
     bind (f x i) (\<lambda>y. bind (map_index f (Suc i) xs) (\<lambda>ys. return (y # ys)))"

lemma bind_cong [fundef_cong]:
  "m = m' \<Longrightarrow> (\<And>w a. m' = (w, Inr a) \<Longrightarrow> f a = f' a) \<Longrightarrow> bind m f = bind m' f'"
  by (auto simp: bind_def split: prod.splits sum.splits)

lemma map_index_cong [fundef_cong]:
  "xs = ys \<Longrightarrow> i = j \<Longrightarrow> (\<And>x k. x \<in> set ys \<Longrightarrow> f x k = g x k) \<Longrightarrow>
   map_index f i xs = map_index g j ys"
proof -
  assume "xs = ys" "i = j" and h: "\<And>x k. x \<in> set ys \<Longrightarrow> f x k = g x k"
  have "map_index f i ys = map_index g i ys" using h
    by (induction ys arbitrary: i) auto
  with \<open>xs = ys\<close> \<open>i = j\<close> show ?thesis by simp
qed

section \<open>The render helpers\<close>

text \<open>\<open>Array.prototype.flat()\<close>: the elements that are arrays are spliced in, one level deep.\<close>

fun flat :: "node list \<Rightarrow> node list" where
  "flat [] = []"
| "flat (Array ns # xs) = ns @ flat xs"
| "flat (n # xs) = n # flat xs"

text \<open>An array is truthy, \<open>null\<close> and \<open>undefined\<close> are not.\<close>

definition truthy :: "'a field \<Rightarrow> bool" where
  "truthy f = (case f of Val _ \<Rightarrow> True | _ \<Rightarrow> False)"

text \<open>The string a template literal makes of a property that holds a string.\<close>

definition to_string :: "js_string field \<Rightarrow> js_string" where
  "to_string f = (case f of Val s \<Rightarrow> s | Null \<Rightarrow> js ''null'' | Undefined \<Rightarrow> js ''undefined'')"

text \<open>The heading's \<open>{ 1: 32, 2: 28, 3: 24, 4: 20, 5: 16, 6: 14 }[token.depth] ?? 14\<close>.\<close>

definition fontSize :: "nat field \<Rightarrow> nat" where
  "fontSize d = (if d = Val 1 then 32 else if d = Val 2 then 28 else if d = Val 3 then 24
     else if d = Val 4 then 20 else if d = Val 5 then 16 else if d = Val 6 then 14 else 14)"

text \<open>\<open>token.tokens || [{ type: "text", text: token.text }]\<close>.\<close>

definition text_token :: "js_string field \<Rightarrow> token" where
  "text_token tx = Token (Val (js ''text'')) [] tx Undefined Undefined Undefined Undefined False Undefined
     False False Undefined Undefined"

definition tokens_or_text :: "token \<Rightarrow> token list field" where
  "tokens_or_text token =
     (if truthy (tokens token) then tokens token else Val [text_token (text' token)])"

text \<open>\<open>item.tokens?.filter(p) || []\<close>.\<close>

definition filter_tokens :: "(token \<Rightarrow> bool) \<Rightarrow> token list field \<Rightarrow> token list" where
  "filter_tokens p f = (case f of Val ts \<Rightarrow> filter p ts | _ \<Rightarrow> [])"

text \<open>The two filters of a list item's tokens in the list builder.\<close>

definition nestedLists :: "token \<Rightarrow> token list" where
  "nestedLists item = filter_tokens (\<lambda>t. type t = Val (js ''list'')) (tokens item)"

definition contentTokens :: "token \<Rightarrow> token list" where
  "contentTokens item = filter_tokens (\<lambda>t. type t \<noteq> Val (js ''list'')) (tokens item)"

text \<open>The style prop \<open>[styles.s, customStyles.s]\<close> of a slot.\<close>

definition slot :: "string \<Rightarrow> jsx_prop" where
  "slot s = Style [Styles s, CustomStyles s]"

text \<open>
  The bullet of a list item. The glyphs are U+2611 (checked box), U+2610 (empty box) and
  U+2022 (bullet), each followed by a space.
\<close>

definition bullet :: "bool \<Rightarrow> token \<Rightarrow> nat \<Rightarrow> js_string" where
  "bullet ordered' item index =
     (if ordered' then dec (index + 1) @ js ''. ''
      else if task item then (if checked item then [0x2611, 0x20] else [0x2610, 0x20])
      else [0x2022, 0x20])"

text \<open>
  The three mutually recursive helpers of the component. \<open>renderInlineTokens\<close> has the
  default parameter \<open>[]\<close>, which replaces \<open>undefined\<close> only; \<open>renderListItems\<close> has
  the default level \<open>0\<close>, passed explicitly by its one caller without a level.
  \<open>renderToken\<close>'s \<open>index\<close> is the React key, a string or a number in the source and
  here the string React turns it into. The \<open>switch\<close> on \<open>token.type\<close> is the chain of
  comparisons in the order of its cases.
\<close>

function renderToken :: "token \<Rightarrow> js_string \<Rightarrow> node result"
  and renderInlineTokens :: "token list field \<Rightarrow> node list result"
  and renderListItems :: "token list field \<Rightarrow> bool \<Rightarrow> nat \<Rightarrow> node list result"
where
  "renderInlineTokens inlineTokens =
     (case inlineTokens of
        Undefined \<Rightarrow> return []
      | Null \<Rightarrow> throw TypeError
      | Val ts \<Rightarrow>
          bind (map_index (\<lambda>t i.
                  if type t = Val (js ''text'') \<and> truthy (tokens t)
                  then bind (renderInlineTokens (tokens t)) (\<lambda>ns. return (Array ns))
                  else renderToken t (js ''in-'' @ dec i)) 0 ts)
               (\<lambda>xs. return (flat xs)))"
| "renderListItems items' ordered' level =
     (case items' of
        Undefined \<Rightarrow> throw TypeError
      | Null \<Rightarrow> throw TypeError
      | Val its \<Rightarrow>
          map_index (\<lambda>item index.
            bind (renderInlineTokens
                    (Val (contentTokens item))) (\<lambda>content.
            bind (map_index (\<lambda>listToken i.
                    bind (renderListItems (items listToken) (ordered listToken) (level + 1)) (\<lambda>ch.
                    return (Element View
                      (Some (js ''nested-'' @ dec level @ js ''-'' @ dec index @ js ''-'' @ dec i))
                      [Style [Styles ''nestedList'', CustomStyles ''nestedList'', MarginLeft 20]]
                      [Array ch])))
                  0 (nestedLists item)) (\<lambda>nested.
            return (Element View (Some (dec level @ js ''-'' @ dec index))
              [Style [Styles ''listitemContainer'', CustomStyles ''listitemContainer'',
                 MarginLeft (10 * level)]]
              [Element Text None [slot ''listitem'']
                 [Literal (Val (bullet ordered' item index)), Array content],
               Array nested])))) 0 its)"
| "renderToken token index =
     (if type token = Val (js ''heading'') then
        bind (renderInlineTokens (tokens token)) (\<lambda>ch.
        return (Element Text (Some index)
          [Style [Styles ''heading'', CustomStyles ''heading'', FontSize (fontSize (depth token))]]
          [Array ch]))
      else if type token = Val (js ''paragraph'') then
        bind (renderInlineTokens (tokens token)) (\<lambda>ch.
        return (Element Text (Some index) [slot ''paragraph''] [Array ch]))
      else if type token = Val (js ''text'') then return (Literal (text' token))
      else if type token = Val (js ''strong'') then
        bind (renderInlineTokens (tokens_or_text token)) (\<lambda>ch.
        return (Element Text (Some index) [slot ''strong''] [Array ch]))
      else if type token = Val (js ''em'') then
        bind (renderInlineTokens (tokens_or_text token)) (\<lambda>ch.
        return (Element Text (Some index) [slot ''em''] [Array ch]))
      else if type token = Val (js ''del'') then
        bind (renderInlineTokens (tokens_or_text token)) (\<lambda>ch.
        return (Element Text (Some index) [slot ''del''] [Array ch]))
      else if type token = Val (js ''codespan'') then
        return (Element Text (Some index) [slot ''codespan''] [Literal (text' token)])
      else if type token = Val (js ''link'') then
        bind (renderInlineTokens (tokens_or_text token)) (\<lambda>ch.
        return (Element Text (Some index)
          [slot ''link'', OnPressOpenURL (href token), AccessibilityRole (js ''link''),
           AccessibilityLabel (text' token)] [Array ch]))
      else if type token = Val (js ''image'') then
        return (Element Image (Some index)
          [SourceUri (href token), slot ''image'', AccessibilityLabel (text' token)] [])
      else if type token = Val (js ''video'') then
        return (Element View (Some index) [slot ''video'']
          [Element Video None
             [SourceUri (href token), Style [Styles ''videoPlayer''], Controls,
              ResizeMode (js ''contain''), AccessibilityLabel (Val (js ''Video content'')), Paused]
             []])
      else if type token = Val (js ''blockquote'') then
        bind (renderInlineTokens (tokens token)) (\<lambda>ch.
        return (Element View (Some index) [slot ''blockquote''] [Array ch]))
      else if type token = Val (js ''list'') then
        bind (renderListItems (items token) (ordered token) 0) (\<lambda>ch.
        return (Element View (Some index) [slot ''list''] [Array ch]))
      else if type token = Val (js ''table'') then
        (case header token of
           Val cols \<Rightarrow>
             bind (map_index (\<lambda>cell i.
                     bind (renderInlineTokens (tokens cell)) (\<lambda>ch.
                     return (Element Text (Some (js ''header-'' @ dec i))
                       [Style [Styles ''tableCell'', Styles ''tableHeader'',
                          CustomStyles ''tableHeader'']]
                       [Array ch]))) 0 cols) (\<lambda>hcells.
             case rows token of
               Val rs \<Rightarrow>
                 bind (map_index (\<lambda>row rowIndex.
                         bind (map_index (\<lambda>cell cellIndex.
                                 bind (renderInlineTokens (tokens cell)) (\<lambda>ch.
                                 return (Element Text
                                   (Some (js ''cell-'' @ dec rowIndex @ js ''-'' @ dec cellIndex))
                                   [slot ''tableCell''] [Array ch]))) 0 row) (\<lambda>cells.
                         return (Element View (Some (js ''row-'' @ dec rowIndex))
                           [slot ''tableRow''] [Array cells]))) 0 rs) (\<lambda>body.
                 return (Element View (Some index) [slot ''table'']
                   [Element View None [slot ''tableRow''] [Array hcells], Array body]))
             | _ \<Rightarrow> throw TypeError)
         | _ \<Rightarrow> throw TypeError)
      else if type token = Val (js ''code'') then
        return (Element View (Some index) [slot ''code'']
          [Element Text None [slot ''codeText''] [Literal (text' token)]])
      else if type token = Val (js ''hr'') then
        return (Element View (Some index) [slot ''hr''] [])
      else if type token = Val (js ''br'') then
        return (Element View (Some index) [slot ''br''] [])
      else if type token = Val (js ''space'') then
        return (Element View (Some index) [slot ''space''] [])
      else if type token = Val (js ''footnote'') then
        return (Element Text (Some index) [slot ''footnote'']
          [Literal (Val (js ''['')), Literal (text' token), Literal (Val (js '']''))])
      else if type token = Val (js ''superscript'') then
        return (Element Text (Some index) [slot ''superscript''] [Literal (text' token)])
      else if type token = Val (js ''subscript'') then
        return (Element Text (Some index) [slot ''subscript''] [Literal (text' token)])
      else
        bind (console_warn (js ''Unsupported token type: '' @ to_string (type token))) (\<lambda>_.
        return (Literal Null)))"
  by pat_completeness auto

subsection \<open>Termination of the render helpers\<close>

text \<open>
  \<open>nesting\<close> is the nesting depth of a token tree. \<open>rank\<close> is the same height with
  weight 1 for a \<open>text\<close> token and 2 for every other token: a \<open>strong\<close>, \<open>em\<close>,
  \<open>del\<close> or \<open>link\<close> token without children recurses into a \<open>text\<close> token made up
  on the spot, which is no subtree of it. \<open>call_rank\<close> measures the argument of a call
  of one of the three helpers.
\<close>

lemma js_eq_iff: "(js a = js b) = (a = b)"
proof -
  have "inj (\<lambda>c::char. (of_nat (of_char c) :: code_unit))"
  proof (rule injI)
    fix x y :: char
    assume h: "(of_nat (of_char x) :: code_unit) = of_nat (of_char y)"
    have "(of_char x :: nat) < 2 ^ 16" "(of_char y :: nat) < 2 ^ 16"
      by (rule less_trans [OF nat_of_char_less_256], simp)+
    hence "(of_char x :: nat) = of_char y"
      using h by (simp add: word_of_nat_eq_iff take_bit_nat_eq_self)
    thus "x = y" by simp
  qed
  thus ?thesis unfolding js_def by (auto dest: map_injective)
qed

fun maxs :: "nat list \<Rightarrow> nat" where
  "maxs [] = 0"
| "maxs (x # xs) = max x (maxs xs)"

definition elems :: "'a list field \<Rightarrow> 'a list" where
  "elems f = (case f of Val xs \<Rightarrow> xs | _ \<Rightarrow> [])"

primrec rank :: "token \<Rightarrow> nat" where
  "rank (Token ty rw tx tks hr dp its ord st tk ck hdr rws) =
     (if ty = Val (js ''text'') then 1 else 2) +
     max (maxs (elems (map_field (map rank) tks)))
       (max (maxs (elems (map_field (map rank) its)))
         (max (maxs (elems (map_field (map rank) hdr)))
           (maxs (concat (elems (map_field (map (map rank)) rws))))))"

primrec nesting :: "token \<Rightarrow> nat" where
  "nesting (Token ty rw tx tks hr dp its ord st tk ck hdr rws) =
     1 +
     max (maxs (elems (map_field (map nesting) tks)))
       (max (maxs (elems (map_field (map nesting) its)))
         (max (maxs (elems (map_field (map nesting) hdr)))
           (maxs (concat (elems (map_field (map (map nesting)) rws))))))"

definition below :: "token list field \<Rightarrow> nat" where
  "below f = maxs (map rank (elems f))"

fun call_rank :: "(token \<times> js_string) + token list field + (token list field \<times> bool \<times> nat) \<Rightarrow> nat" where
  "call_rank (Inl (t, k)) = 3 * rank t"
| "call_rank (Inr (Inl f)) = 3 * below f + 1"
| "call_rank (Inr (Inr (f, ord, lv))) = 3 * below f + 1"

lemma maxs_ge: "x \<in> set xs \<Longrightarrow> x \<le> maxs xs"
  by (induction xs) auto

lemma maxs_le: "(\<And>x. x \<in> set xs \<Longrightarrow> x \<le> b) \<Longrightarrow> maxs xs \<le> b"
  by (induction xs) auto

lemma elems_map_field: "elems (map_field (map f) x) = map f (elems x)"
  by (cases x) (simp_all add: elems_def)

lemma below_Val: "t \<in> set ts \<Longrightarrow> rank t \<le> below (Val ts)"
  by (simp add: below_def elems_def maxs_ge)

lemma maxs_filter: "maxs (map f (filter p xs)) \<le> maxs (map f xs)"
  by (induction xs) auto

lemma below_filter: "below (Val (filter_tokens p f)) \<le> below f"
  unfolding below_def
  by (cases f) (simp_all add: elems_def filter_tokens_def maxs_filter)

lemma rank_tokens: "below (tokens t) < rank t"
  by (cases t) (auto simp add: below_def elems_map_field max_def)

lemma rank_items: "below (items t) < rank t"
  by (cases t) (auto simp add: below_def elems_map_field max_def)

lemma rank_header: "below (header t) < rank t"
  by (cases t) (auto simp add: below_def elems_map_field max_def)

lemma rank_rows: "rows t = Val rs \<Longrightarrow> r \<in> set rs \<Longrightarrow> below (Val r) < rank t"
proof (cases t)
  case (Token ty rw tx tks hr dp its ord st tk ck hdr rws)
  assume a: "rows t = Val rs" "r \<in> set rs"
  have "maxs (map rank r) \<le> maxs (concat (map (map rank) rs))"
    using a(2) by (intro maxs_le maxs_ge) auto
  with Token a(1) show ?thesis
    by (auto simp add: below_def elems_def max_def)
qed

lemma rank_tokens_or_text: "type t \<noteq> Val (js ''text'') \<Longrightarrow> below (tokens_or_text t) < rank t"
proof (cases "truthy (tokens t)")
  case True
  then show ?thesis using rank_tokens [of t] by (simp add: tokens_or_text_def)
next
  case False
  assume "type t \<noteq> Val (js ''text'')"
  hence "2 \<le> rank t" by (cases t) simp
  moreover have "below (Val [text_token (text' t)]) = 1"
    by (simp add: below_def elems_def text_token_def)
  ultimately show ?thesis using False by (simp add: tokens_or_text_def)
qed

lemma below_member: "x \<in> set (filter_tokens p f) \<Longrightarrow> rank x \<le> below f"
  by (cases f) (auto simp: filter_tokens_def below_def elems_def intro: maxs_ge)

lemma step_inline_text: "x \<in> set ts \<Longrightarrow> below (tokens x) < below (Val ts)"
  using rank_tokens [of x] below_Val [of x ts] by linarith

lemma step_inline_token: "x \<in> set ts \<Longrightarrow> 3 * rank x < Suc (3 * below (Val ts))"
  using below_Val [of x ts] by linarith

lemma step_item_content:
  "x \<in> set ts \<Longrightarrow> below (Val (filter_tokens p (tokens x))) < below (Val ts)"
  using below_filter [of p "tokens x"] rank_tokens [of x] below_Val [of x ts] by linarith

lemma step_item_nested:
  "x \<in> set ts \<Longrightarrow> y \<in> set (filter_tokens p (tokens x)) \<Longrightarrow> below (items y) < below (Val ts)"
  using rank_items [of y] below_member [of y p "tokens x"] rank_tokens [of x] below_Val [of x ts]
  by linarith

lemma step_token_tokens: "Suc (3 * below (tokens t)) < 3 * rank t"
  using rank_tokens [of t] by linarith

lemma step_token_or_text:
  "type t \<noteq> Val (js ''text'') \<Longrightarrow> Suc (3 * below (tokens_or_text t)) < 3 * rank t"
  using rank_tokens_or_text [of t] by linarith

lemma step_token_items: "Suc (3 * below (items t)) < 3 * rank t"
  using rank_items [of t] by linarith

lemma step_header_cell:
  "header t = Val cs \<Longrightarrow> x \<in> set cs \<Longrightarrow> Suc (3 * below (tokens x)) < 3 * rank t"
  using rank_tokens [of x] below_Val [of x cs] rank_header [of t] by simp

lemma step_row_cell:
  "rows t = Val rs \<Longrightarrow> r \<in> set rs \<Longrightarrow> x \<in> set r \<Longrightarrow>
   Suc (3 * below (tokens x)) < 3 * rank t"
  using rank_tokens [of x] below_Val [of x r] rank_rows [of t rs r] by simp

lemmas call_steps = nestedLists_def contentTokens_def
  step_inline_text step_inline_token step_item_content step_item_nested
  step_token_tokens step_token_or_text step_token_items step_header_cell step_row_cell

lemma call_decreases:
  "renderToken_renderInlineTokens_renderListItems_rel c' c \<Longrightarrow> call_rank c' < call_rank c"
  by (induction rule: renderToken_renderInlineTokens_renderListItems_rel.induct)
     (auto simp: call_steps js_eq_iff)

lemma call_accessible: "renderToken_renderInlineTokens_renderListItems_dom c"
proof (induction "call_rank c" arbitrary: c rule: less_induct)
  case less
  show ?case
    by (rule accpI) (auto intro: less dest: call_decreases)
qed

termination renderToken
  using call_accessible by blast

declare renderToken.simps [simp del] renderInlineTokens.simps [simp del]
  renderListItems.simps [simp del]

section \<open>The component\<close>

text \<open>
  \<open>markdownText.replace(/\r\n|\r/g, "\n")\<close>: from left to right, every carriage return
  followed by a line feed, and every other carriage return, becomes one line feed.
\<close>

definition cr :: code_unit where
  "cr = 0x0D"

definition lf :: code_unit where
  "lf = 0x0A"

fun normalizedMarkdown :: "js_string \<Rightarrow> js_string" where
  "normalizedMarkdown [] = []"
| "normalizedMarkdown [c] = (if c = cr then [lf] else [c])"
| "normalizedMarkdown (c # d # s) =
     (if c = cr \<and> d = lf then lf # normalizedMarkdown s
      else if c = cr then lf # normalizedMarkdown (d # s)
      else c # normalizedMarkdown (d # s))"

text \<open>
  The token list of the component. \<open>marked.lexer\<close> belongs to a library outside the
  repository and is a parameter; \<open>useMemo\<close> only caches its result.
\<close>

definition parsedTokens :: "(js_string \<Rightarrow> token list) \<Rightarrow> js_string \<Rightarrow> token list" where
  "parsedTokens lexer markdownText = lexer (normalizedMarkdown markdownText)"

text \<open>
  The class \<open>ErrorBoundary\<close>: its state is the flag \<open>hasError\<close>, initially false;
  \<open>getDerivedStateFromError\<close> sets it; \<open>render\<close> gives the fallback message when it
  is set and \<open>this.props.children\<close> as it is (the one child element) otherwise.
\<close>

definition initial_hasError :: bool where
  "initial_hasError = False"

definition getDerivedStateFromError :: bool where
  "getDerivedStateFromError = True"

definition fallback :: node where
  "fallback = Element Text None [Style [Styles ''error'']]
     [Literal (Val (js ''Error rendering Markdown''))]"

definition ErrorBoundary_render :: "bool \<Rightarrow> node \<Rightarrow> node" where
  "ErrorBoundary_render hasError children = (if hasError then fallback else children)"

text \<open>
  The function component. JavaScript evaluates the children of a JSX element before the
  element is created, so \<open>tokens.map(...)\<close> runs inside the call of \<open>MarkdownParser\<close>
  itself; when it throws, the call throws and no element is returned.
\<close>

definition MarkdownParser :: "(js_string \<Rightarrow> token list) \<Rightarrow> js_string \<Rightarrow> node result" where
  "MarkdownParser lexer markdownText =
     bind (map_index (\<lambda>token index. renderToken token (dec index)) 0
             (parsedTokens lexer markdownText)) (\<lambda>ch.
     return (Element ErrorBoundary None []
       [Element ScrollView None
          [ContentContainerStyle [Styles ''container'', CustomStyles ''container'']]
          [Array ch]]))"

section \<open>Notions used to state the properties\<close>

text \<open>
  The lines of a source text: it is cut at every line terminator, where a terminator is a
  carriage return followed by a line feed, a carriage return alone or a line feed alone.
  Two texts differ only in their line terminators when they have the same lines.
  \<open>join_lines\<close> puts the lines together again with line feeds.
\<close>

fun join_lines :: "js_string list \<Rightarrow> js_string" where
  "join_lines [] = []"
| "join_lines [l] = l"
| "join_lines (l # m # ls) = l @ lf # join_lines (m # ls)"

fun push :: "code_unit \<Rightarrow> js_string list \<Rightarrow> js_string list" where
  "push c [] = [[c]]"
| "push c (l # ls) = (c # l) # ls"

fun split_lines :: "js_string \<Rightarrow> js_string list" where
  "split_lines [] = [[]]"
| "split_lines [c] = (if c = cr \<or> c = lf then [[], []] else [[c]])"
| "split_lines (c # d # s) =
     (if c = cr \<and> d = lf then [] # split_lines s
      else if c = cr \<or> c = lf then [] # split_lines (d # s)
      else push c (split_lines (d # s)))"

text \<open>A \<open>table\<close> token whose \<open>header\<close> is \<open>null\<close>, with no rows.\<close>

definition null_header_table :: token where
  "null_header_table = Token (Val (js ''table'')) [] Undefined Undefined Undefined Undefined Undefined
     False Undefined False False Null (Val [])"

text \<open>A paragraph without children.\<close>

definition empty_paragraph :: token where
  "empty_paragraph = Token (Val (js ''paragraph'')) [] Undefined (Val []) Undefined Undefined Undefined
     False Undefined False False Undefined Undefined"

text \<open>
  Token trees as the external tokenizer builds them, for the examples: an inline \<open>text\<close>
  token, a block \<open>text\<close> token (it carries its inline children), a list item, a list, a
  table cell and a table.
\<close>

definition mk_text :: "string \<Rightarrow> token" where
  "mk_text s = Token (Val (js ''text'')) (js s) (Val (js s)) Undefined Undefined Undefined Undefined
     False Undefined False False Undefined Undefined"

definition mk_block_text :: "string \<Rightarrow> token" where
  "mk_block_text s = Token (Val (js ''text'')) (js s) (Val (js s)) (Val [mk_text s]) Undefined
     Undefined Undefined False Undefined False False Undefined Undefined"

definition mk_item :: "js_string \<Rightarrow> bool \<Rightarrow> bool \<Rightarrow> token list \<Rightarrow> token" where
  "mk_item rw tk ck ts = Token (Val (js ''list_item'')) rw Undefined (Val ts) Undefined Undefined
     Undefined False Undefined tk ck Undefined Undefined"

definition mk_list :: "bool \<Rightarrow> nat field \<Rightarrow> token list \<Rightarrow> token" where
  "mk_list ord st its = Token (Val (js ''list'')) [] Undefined Undefined Undefined Undefined (Val its)
     ord st False False Undefined Undefined"

definition mk_cell :: "token list \<Rightarrow> token" where
  "mk_cell ts = Token Undefined [] Undefined (Val ts) Undefined Undefined Undefined
     False Undefined False False Undefined Undefined"

definition mk_table :: "token list \<Rightarrow> token list list \<Rightarrow> token" where
  "mk_table cols rs = Token (Val (js ''table'')) [] Undefined Undefined Undefined Undefined Undefined
     False Undefined False False (Val cols) (Val rs)"

text \<open>
  The list of \<open>- a\<close>, \<open>- b\<close> nested in it and \<open>- c\<close> nested in that; an ordered
  list whose source numbers its two items 5 and 6; a list of a checked task, an unchecked
  task and a plain item; a table of two columns with a row of one cell and a row of three.
\<close>

definition nested_list :: token where
  "nested_list =
     mk_list False Undefined [mk_item (js ''- a'') False False [mk_block_text ''a'',
       mk_list False Undefined [mk_item (js ''- b'') False False [mk_block_text ''b'',
         mk_list False Undefined [mk_item (js ''- c'') False False [mk_block_text ''c'']]]]]]"

definition ordered_list :: token where
  "ordered_list = mk_list True (Val 5)
     [mk_item (js ''5. x'') False False [mk_block_text ''x''],
      mk_item (js ''6. y'') False False [mk_block_text ''y'']]"

definition task_list :: token where
  "task_list = mk_list False Undefined
     [mk_item (js ''- [x] p'') True True [mk_block_text ''p''],
      mk_item (js ''- [ ] q'') True False [mk_block_text ''q''],
      mk_item (js ''- r'') False False [mk_block_text ''r'']]"

definition ragged_table :: token where
  "ragged_table = mk_table [mk_cell [mk_text ''h1''], mk_cell [mk_text ''h2'']]
     [[mk_cell [mk_text ''a'']],
      [mk_cell [mk_text ''b''], mk_cell [mk_text ''c''], mk_cell [mk_text ''d'']]]"

text \<open>
  The bullet of a rendered list item: the first child of the text element that is the
  first child of the item's container.
\<close>

fun item_prefix :: "node \<Rightarrow> js_string option" where
  "item_prefix (Element View k ps (Element Text k' ps' (Literal (Val b) # rest) # more)) = Some b"
| "item_prefix n = None"

text \<open>
  Indentation: a \<open>marginLeft\<close> moves a view and all it holds to the right, so the left
  offset of a node is the sum of the margins of the views around it. \<open>indents m n\<close>
  lists, for every list item's text element in \<open>n\<close>, its left offset (from \<open>m\<close>)
  and its bullet, in document order.
\<close>

fun margin_left :: "jsx_prop list \<Rightarrow> nat" where
  "margin_left [] = 0"
| "margin_left (Style ss # ps) = sum_list (map (\<lambda>s. case s of MarginLeft m \<Rightarrow> m | _ \<Rightarrow> 0) ss) + margin_left ps"
| "margin_left (p # ps) = margin_left ps"

fun indents :: "nat \<Rightarrow> node \<Rightarrow> (nat \<times> js_string) list" where
  "indents m (Literal v) = []"
| "indents m (Array ns) = concat (map (indents m) ns)"
| "indents m (Element c k ps ch) =
     (if c = Text \<and> ps = [slot ''listitem'']
      then (case ch of Literal (Val b) # rest \<Rightarrow> [(m, b)] | _ \<Rightarrow> [])
      else concat (map (indents (m + margin_left ps)) ch))"


text \<open>
  A child that is an array, and what \<open>flat()\<close> makes of one element: the elements of an
  array, or the element itself.
\<close>

fun is_Array :: "node \<Rightarrow> bool" where
  "is_Array (Array ns) = True"
| "is_Array n = False"

fun splice :: "node \<Rightarrow> node list" where
  "splice (Array ns) = ns"
| "splice n = [n]"

text \<open>
  An inline run \<open>x a **b** y\<close> whose middle part is a \<open>text\<close> token with children:
  the literal \<open>a\<close> and a \<open>strong\<close> token.
\<close>

definition mk_strong :: "token list \<Rightarrow> token" where
  "mk_strong ts = Token (Val (js ''strong'')) [] Undefined (Val ts) Undefined Undefined Undefined
     False Undefined False False Undefined Undefined"

definition inline_run :: "token list" where
  "inline_run =
     [mk_text ''x'',
      Token (Val (js ''text'')) (js ''a**b**'') (Val (js ''a**b**''))
        (Val [mk_text ''a'', mk_strong [mk_text ''b'']]) Undefined Undefined Undefined
        False Undefined False False Undefined Undefined,
      mk_text ''y'']"

text \<open>The kinds the token dispatcher has a case for, in the order of its cases.\<close>

definition known_types :: "js_string list" where
  "known_types = map js [''heading'', ''paragraph'', ''text'', ''strong'', ''em'', ''del'',
     ''codespan'', ''link'', ''image'', ''video'', ''blockquote'', ''list'', ''table'', ''code'',
     ''hr'', ''br'', ''space'', ''footnote'', ''superscript'', ''subscript'']"

text \<open>
  What a React element tree shows. React renders nothing for \<open>null\<close> and
  \<open>undefined\<close>, renders the elements of an array child in place, and uses a key only to
  match elements between renders: \<open>displayed\<close> drops the keys and the empty children and
  flattens the arrays. \<open>rendered\<close> is what a computation shows (or its exception),
  \<open>rendered_all\<close> the same for a computation of a list of nodes; \<open>diagnostics\<close> are
  the warnings it wrote and \<open>returns\<close> says that it did not throw.
\<close>

datatype shown = ShownText js_string | ShownElement component "jsx_prop list" "shown list"

fun displayed :: "node \<Rightarrow> shown list" where
  "displayed (Literal (Val s)) = [ShownText s]"
| "displayed (Literal v) = []"
| "displayed (Array ns) = concat (map displayed ns)"
| "displayed (Element c k ps ch) = [ShownElement c ps (concat (map displayed ch))]"

definition rendered :: "node result \<Rightarrow> error + shown list" where
  "rendered r = (case snd r of Inl e \<Rightarrow> Inl e | Inr n \<Rightarrow> Inr (displayed n))"

definition rendered_all :: "node list result \<Rightarrow> error + shown list" where
  "rendered_all r = (case snd r of Inl e \<Rightarrow> Inl e | Inr ns \<Rightarrow> Inr (concat (map displayed ns)))"

definition diagnostics :: "'a result \<Rightarrow> js_string list" where
  "diagnostics r = fst r"

definition returns :: "'a result \<Rightarrow> bool" where
  "returns r = (case snd r of Inl e \<Rightarrow> False | Inr a \<Rightarrow> True)"

definition same_view :: "node result \<Rightarrow> node result \<Rightarrow> bool" where
  "same_view r r' = (rendered r = rendered r' \<and> diagnostics r = diagnostics r')"

definition same_views :: "node list result \<Rightarrow> node list result \<Rightarrow> bool" where
  "same_views r r' = (rendered_all r = rendered_all r' \<and> diagnostics r = diagnostics r')"

text \<open>An \<open>html\<close> token, for which the dispatcher has no case, and a horizontal rule.\<close>

definition html_token :: token where
  "html_token = Token (Val (js ''html'')) (js ''<br>'') (Val (js ''<br>'')) Undefined Undefined
     Undefined Undefined False Undefined False False Undefined Undefined"

definition hr_token :: token where
  "hr_token = Token (Val (js ''hr'')) (js ''---'') Undefined Undefined Undefined
     Undefined Undefined False Undefined False False Undefined Undefined"

section \<open>Laws of sequencing and of the indexed loop\<close>

lemma return_bind [simp]: "bind (return a) f = f a"
  by (simp add: bind_def return_def split: prod.splits)

lemma throw_bind [simp]: "bind (throw e) f = throw e"
  by (simp add: bind_def throw_def)

lemma bind_Inr:
  "bind m f = (w, Inr b) \<longleftrightarrow> (\<exists>w1 a w2. m = (w1, Inr a) \<and> f a = (w2, Inr b) \<and> w = w1 @ w2)"
  by (cases m) (auto simp: bind_def split: sum.splits prod.splits)

lemma map_index_Inr:
  "map_index f i xs = (w, Inr ys) \<Longrightarrow>
   length ys = length xs \<and> (\<forall>j<length xs. \<exists>wj. f (xs ! j) (i + j) = (wj, Inr (ys ! j)))"
proof (induction xs arbitrary: i w ys)
  case Nil
  then show ?case by (simp add: return_def)
next
  case (Cons x xs)
  from Cons.prems obtain w1 y w2 ys' where
    a: "f x i = (w1, Inr y)" and b: "map_index f (Suc i) xs = (w2, Inr ys')" and c: "ys = y # ys'"
    by (auto simp: bind_Inr return_def)
  from Cons.IH [OF b] have len: "length ys' = length xs"
    and el: "\<And>j. j < length xs \<Longrightarrow> \<exists>wj. f (xs ! j) (Suc i + j) = (wj, Inr (ys' ! j))" by auto
  show ?case
  proof (intro conjI allI impI)
    show "length ys = length (x # xs)" using len c by simp
  next
    fix j assume "j < length (x # xs)"
    then show "\<exists>wj. f ((x # xs) ! j) (i + j) = (wj, Inr (ys ! j))"
      using a c el [of "j - 1"] by (cases j) auto
  qed
qed

lemma return_Inr: "return a = (w, Inr b) \<longleftrightarrow> w = [] \<and> a = b"
  by (auto simp: return_def)

lemma throw_Inr [simp]: "throw e \<noteq> (w, Inr b)"
  by (simp add: throw_def)

lemma bind_return_Inr:
  "bind m (\<lambda>a. return (g a)) = (w, Inr b) \<longleftrightarrow> (\<exists>a. m = (w, Inr a) \<and> b = g a)"
  by (auto simp: bind_Inr return_def)

lemmas eval_simps = renderToken.simps renderInlineTokens.simps renderListItems.simps
  filter_tokens_def nestedLists_def contentTokens_def tokens_or_text_def truthy_def js_eq_iff bullet_def slot_def
  bind_def return_def throw_def console_warn_def dec.simps digit_def

lemma bind_assoc: "bind (bind m f) g = bind m (\<lambda>a. bind (f a) g)"
  by (cases m) (auto simp: bind_def split: sum.splits prod.splits)

lemma bind_return [simp]: "bind m return = m"
  by (cases m) (auto simp: bind_def return_def split: sum.splits)

lemma map_index_append:
  "map_index f i (xs @ ys) =
     bind (map_index f i xs) (\<lambda>a. bind (map_index f (i + length xs) ys) (\<lambda>b. return (a @ b)))"
  by (induction xs arbitrary: i) (simp_all add: bind_assoc)

section \<open>Properties of the extension tokenizers\<close>

lemma backtrack_run:
  "k \<le> length (takeWhile (\<lambda>c. c \<noteq> x) s) \<Longrightarrow>
   backtrack x s k =
     (if 0 < k \<and> k = length (takeWhile (\<lambda>c. c \<noteq> x) s) \<and> k < length s
      then Some (takeWhile (\<lambda>c. c \<noteq> x) s) else None)"
proof (induction k)
  case 0
  then show ?case by simp
next
  case (Suc k)
  let ?run = "takeWhile (\<lambda>c. c \<noteq> x) s"
  show ?case
  proof (cases "Suc k = length ?run")
    case True
    have stop: "Suc k < length s \<Longrightarrow> s ! Suc k = x"
      using True nth_length_takeWhile [of "\<lambda>c. c \<noteq> x" s] by auto
    have tk: "take (Suc k) s = ?run"
      using True by (metis takeWhile_eq_take)
    show ?thesis
    proof (cases "Suc k < length s")
      case True
      with stop have "backtrack x s (Suc k) = Some (take (Suc k) s)" by simp
      moreover have "?run \<noteq> []" using \<open>Suc k = length ?run\<close> by auto
      ultimately show ?thesis
        using True tk \<open>Suc k = length ?run\<close> by (simp del: backtrack.simps)
    next
      case False
      have "backtrack x s k = None"
        using Suc.IH \<open>Suc k = length ?run\<close> by simp
      hence "backtrack x s (Suc k) = None" using False by simp
      with False \<open>Suc k = length ?run\<close> show ?thesis by (simp del: backtrack.simps)
    qed
  next
    case False
    with Suc.prems have lt: "Suc k < length ?run" by simp
    hence "s ! Suc k \<noteq> x"
      using nth_mem [of "Suc k" ?run] takeWhile_nth [of "Suc k" "\<lambda>c. c \<noteq> x" s]
      by (metis (mono_tags, lifting) set_takeWhileD)
    moreover have "backtrack x s k = None"
      using Suc.IH lt by simp
    ultimately show ?thesis using False by simp
  qed
qed

lemma exec_rule_Some:
  "exec_rule opn x src = Some (m0, m1) \<longleftrightarrow>
     (\<exists>rest. src = opn @ m1 @ x # rest \<and> m1 \<noteq> [] \<and> x \<notin> set m1 \<and> m0 = opn @ m1 @ [x])"
proof
  assume h: "exec_rule opn x src = Some (m0, m1)"
  define s where "s = drop (length opn) src"
  let ?run = "takeWhile (\<lambda>c. c \<noteq> x) s"
  from h have pre: "length opn \<le> length src" "take (length opn) src = opn"
    by (auto simp: exec_rule_def split: if_splits)
  from h pre have bt: "backtrack x s (length ?run) = Some m1" and m0: "m0 = opn @ m1 @ [x]"
    by (auto simp: exec_rule_def s_def Let_def split: option.splits)
  from bt have run: "0 < length ?run" "length ?run < length s" "m1 = ?run"
    by (auto simp: backtrack_run split: if_splits)
  have "s = ?run @ dropWhile (\<lambda>c. c \<noteq> x) s" by simp
  moreover have "dropWhile (\<lambda>c. c \<noteq> x) s \<noteq> []"
    using run(2) by (metis calculation append_Nil2 less_irrefl)
  then obtain rest where "dropWhile (\<lambda>c. c \<noteq> x) s = x # rest"
    using hd_dropWhile [of "\<lambda>c. c \<noteq> x" s] by (cases "dropWhile (\<lambda>c. c \<noteq> x) s") auto
  ultimately have "s = m1 @ x # rest" using run(3) by simp
  moreover have "src = opn @ s" using pre by (metis append_take_drop_id s_def)
  moreover have "x \<notin> set m1" using run(3) by (auto dest: set_takeWhileD)
  ultimately show "\<exists>rest. src = opn @ m1 @ x # rest \<and> m1 \<noteq> [] \<and> x \<notin> set m1 \<and> m0 = opn @ m1 @ [x]"
    using run(1,3) m0 by auto
next
  assume "\<exists>rest. src = opn @ m1 @ x # rest \<and> m1 \<noteq> [] \<and> x \<notin> set m1 \<and> m0 = opn @ m1 @ [x]"
  then obtain rest where src: "src = opn @ m1 @ x # rest" and ne: "m1 \<noteq> []"
    and nx: "x \<notin> set m1" and m0: "m0 = opn @ m1 @ [x]" by blast
  have run: "takeWhile (\<lambda>c. c \<noteq> x) (m1 @ x # rest) = m1"
    using nx by (induction m1) auto
  have "backtrack x (m1 @ x # rest) (length m1) = Some m1"
    using ne run by (simp add: backtrack_run)
  thus "exec_rule opn x src = Some (m0, m1)"
    using src m0 run by (simp add: exec_rule_def)
qed

lemma tokenizer_Some:
  "(case exec_rule [x] x src of None \<Rightarrow> None
    | Some (m0, m1) \<Rightarrow> Some (extension_token ty m0 (trim m1))) = Some t \<Longrightarrow>
   \<exists>inner rest. src = x # inner @ x # rest \<and> inner \<noteq> [] \<and> x \<notin> set inner \<and>
     t = extension_token ty (x # inner @ [x]) (trim inner)"
proof -
  assume h: "(case exec_rule [x] x src of None \<Rightarrow> None
    | Some (m0, m1) \<Rightarrow> Some (extension_token ty m0 (trim m1))) = Some t"
  then obtain m0 m1 where e: "exec_rule [x] x src = Some (m0, m1)"
    and t: "t = extension_token ty m0 (trim m1)"
    by (auto split: option.splits)
  from e obtain rest where "src = [x] @ m1 @ x # rest" "m1 \<noteq> []" "x \<notin> set m1"
    "m0 = [x] @ m1 @ [x]"
    unfolding exec_rule_Some by blast
  with t show ?thesis by auto
qed

lemma tokenizer_prefix:
  "inner \<noteq> [] \<Longrightarrow> x \<notin> set inner \<Longrightarrow>
   (case exec_rule [x] x (x # inner @ x # rest) of None \<Rightarrow> None
    | Some (m0, m1) \<Rightarrow> Some (extension_token ty m0 (trim m1))) =
   Some (extension_token ty (x # inner @ [x]) (trim inner))"
proof -
  assume "inner \<noteq> []" "x \<notin> set inner"
  hence "exec_rule [x] x (x # inner @ x # rest) = Some ([x] @ inner @ [x], inner)"
    unfolding exec_rule_Some by auto
  thus ?thesis by simp
qed

lemma tokenizer_None:
  "src = [] \<or> hd src \<noteq> x \<or> x \<notin> set (tl src) \<or> hd (tl src) = x \<Longrightarrow>
   (case exec_rule [x] x src of None \<Rightarrow> None
    | Some (m0, m1) \<Rightarrow> Some (extension_token ty m0 (trim m1))) = None"
proof (rule ccontr)
  assume c: "src = [] \<or> hd src \<noteq> x \<or> x \<notin> set (tl src) \<or> hd (tl src) = x"
  assume "(case exec_rule [x] x src of None \<Rightarrow> None
    | Some (m0, m1) \<Rightarrow> Some (extension_token ty m0 (trim m1))) \<noteq> None"
  then obtain t where "(case exec_rule [x] x src of None \<Rightarrow> None
    | Some (m0, m1) \<Rightarrow> Some (extension_token ty m0 (trim m1))) = Some t" by blast
  from tokenizer_Some [OF this] obtain inner rest where
    s: "src = x # inner @ x # rest" and ne: "inner \<noteq> []" and nx: "x \<notin> set inner"
    by blast
  have "hd (tl src) \<noteq> x" using s ne nx by (cases inner) auto
  with c s show False by auto
qed

lemma trim_plain: "trim (js ''text'') = js ''text''" "trim (js ''b'') = js ''b''"
  "trim (js ''c'') = js ''c''"
  by (simp_all add: trim_def js_def is_space_def)

text \<open>
  C10. On every input that begins with two tildes the subscript rule does not match and
  the tokenizer returns no token, because the captured run must be non-empty and hold no
  tilde; so the tokenizer declines at the first position of a strikethrough span
  \<open>~~text~~\<close>. Every token it returns comes from an opening tilde, a non-empty run
  without a tilde and the first tilde after it; and it returns one on every such input,
  whatever follows the closing tilde, a further tilde included. It therefore matches one
  code unit into a strikethrough span.
\<close>

theorem subscript_double_tilde:
  "subscript_tokenizer (tilde # tilde # rest) = None
   \<and> subscript_tokenizer (js ''~~'' @ rest) = None
   \<and> subscript_tokenizer (js ''~~text~~'') = None
   \<and> (\<forall>src t. subscript_tokenizer src = Some t \<longrightarrow>
        (\<exists>inner rest'. src = tilde # inner @ tilde # rest' \<and> inner \<noteq> [] \<and> tilde \<notin> set inner
           \<and> type t = Val (js ''subscript'') \<and> raw t = tilde # inner @ [tilde]
           \<and> text' t = Val (trim inner)))
   \<and> (\<forall>inner rest'. inner \<noteq> [] \<and> tilde \<notin> set inner \<longrightarrow>
        subscript_tokenizer (tilde # inner @ tilde # rest') =
          Some (extension_token (js ''subscript'') (tilde # inner @ [tilde]) (trim inner)))"
proof -
  have a: "\<And>r. subscript_tokenizer (tilde # tilde # r) = None"
    unfolding subscript_tokenizer_def by (rule tokenizer_None) simp
  have b: "js ''~~'' = [tilde, tilde]" by (simp add: js_def tilde_def)
  have c: "js ''~~text~~'' = tilde # tilde # js ''text~~''" by (simp add: js_def tilde_def)
  have g: "\<forall>src t. subscript_tokenizer src = Some t \<longrightarrow>
        (\<exists>inner rest'. src = tilde # inner @ tilde # rest' \<and> inner \<noteq> [] \<and> tilde \<notin> set inner
           \<and> type t = Val (js ''subscript'') \<and> raw t = tilde # inner @ [tilde]
           \<and> text' t = Val (trim inner))"
  proof (intro allI impI)
    fix src t
    assume "subscript_tokenizer src = Some t"
    from tokenizer_Some [OF this [unfolded subscript_tokenizer_def]]
    obtain inner rest' where "src = tilde # inner @ tilde # rest'" "inner \<noteq> []"
      "tilde \<notin> set inner"
      "t = extension_token (js ''subscript'') (tilde # inner @ [tilde]) (trim inner)"
      by blast
    thus "\<exists>inner rest'. src = tilde # inner @ tilde # rest' \<and> inner \<noteq> [] \<and> tilde \<notin> set inner
           \<and> type t = Val (js ''subscript'') \<and> raw t = tilde # inner @ [tilde]
           \<and> text' t = Val (trim inner)"
      by (auto simp: extension_token_def)
  qed
  have m: "\<forall>inner rest'. inner \<noteq> [] \<and> tilde \<notin> set inner \<longrightarrow>
        subscript_tokenizer (tilde # inner @ tilde # rest') =
          Some (extension_token (js ''subscript'') (tilde # inner @ [tilde]) (trim inner))"
    unfolding subscript_tokenizer_def by (auto intro: tokenizer_prefix)
  show ?thesis using a b c g m by simp
qed

theorem subscript_double_tilde_witness:
  "subscript_tokenizer (js ''~text~~'') =
     Some (extension_token (js ''subscript'') (js ''~text~'') (js ''text''))
   \<and> (\<exists>inner rest'. js ''~text~~'' = tilde # inner @ tilde # rest' \<and> inner \<noteq> []
        \<and> tilde \<notin> set inner \<and> js ''~text~'' = tilde # inner @ [tilde]
        \<and> Val (js ''text'') = Val (trim inner))"
proof -
  let ?t = "extension_token (js ''subscript'') (js ''~text~'') (js ''text'')"
  have s: "js ''~text~~'' = tilde # js ''text'' @ tilde # [tilde]"
    "js ''~text~'' = tilde # js ''text'' @ [tilde]"
    by (simp_all add: js_def tilde_def)
  have n: "js ''text'' \<noteq> [] \<and> tilde \<notin> set (js ''text'')"
    by (simp add: js_def tilde_def)
  have e: "subscript_tokenizer (js ''~text~~'') = Some ?t"
    using subscript_double_tilde [THEN conjunct2, THEN conjunct2, THEN conjunct2,
        THEN conjunct2, rule_format, OF n, of "[tilde]"] s trim_plain(1)
    by simp
  moreover have "\<exists>inner rest'. js ''~text~~'' = tilde # inner @ tilde # rest' \<and> inner \<noteq> []
        \<and> tilde \<notin> set inner \<and> type ?t = Val (js ''subscript'')
        \<and> raw ?t = tilde # inner @ [tilde] \<and> text' ?t = Val (trim inner)"
    using subscript_double_tilde [THEN conjunct2, THEN conjunct2, THEN conjunct2,
        THEN conjunct1, rule_format, OF e] .
  ultimately show ?thesis by (simp add: extension_token_def)
qed

text \<open>
  The spans \<open>~~text~~\<close> are not out of the recognizer's reach. On \<open>~b~~c~~\<close> it
  takes \<open>~b~\<close>; the rest \<open>~c~~\<close> starts one code unit into the span \<open>~~c~~\<close>, and
  there it returns a subscript token with text \<open>c\<close>. Likewise one code unit into
  \<open>~~text~~\<close> it returns a subscript token with text \<open>text\<close>.
\<close>

theorem strikethrough_captured_as_subscript:
  "subscript_tokenizer (js ''~b~~c~~'') =
     Some (extension_token (js ''subscript'') (js ''~b~'') (js ''b''))
   \<and> drop (length (js ''~b~'')) (js ''~b~~c~~'') = js ''~c~~''
   \<and> subscript_tokenizer (js ''~c~~'') =
     Some (extension_token (js ''subscript'') (js ''~c~'') (js ''c''))
   \<and> drop 1 (js ''~~text~~'') = js ''~text~~''
   \<and> subscript_tokenizer (js ''~text~~'') =
     Some (extension_token (js ''subscript'') (js ''~text~'') (js ''text''))
   \<and> \<not> (\<forall>k<length (js ''~~text~~''). subscript_tokenizer (drop k (js ''~~text~~'')) = None)"
proof -
  have p: "\<And>inner r. inner \<noteq> [] \<Longrightarrow> tilde \<notin> set inner \<Longrightarrow>
      subscript_tokenizer (tilde # inner @ tilde # r) =
        Some (extension_token (js ''subscript'') (tilde # inner @ [tilde]) (trim inner))"
    unfolding subscript_tokenizer_def by (rule tokenizer_prefix)
  have s: "js ''~b~~c~~'' = tilde # js ''b'' @ tilde # js ''~c~~''"
    "js ''~b~'' = tilde # js ''b'' @ [tilde]"
    "js ''~c~~'' = tilde # js ''c'' @ tilde # [tilde]"
    "js ''~c~'' = tilde # js ''c'' @ [tilde]"
    "js ''~text~~'' = tilde # js ''text'' @ tilde # [tilde]"
    "js ''~text~'' = tilde # js ''text'' @ [tilde]"
    by (simp_all add: js_def tilde_def)
  have n: "js ''b'' \<noteq> []" "tilde \<notin> set (js ''b'')" "js ''c'' \<noteq> []" "tilde \<notin> set (js ''c'')"
    "js ''text'' \<noteq> []" "tilde \<notin> set (js ''text'')"
    by (simp_all add: js_def tilde_def)
  have e1: "subscript_tokenizer (js ''~b~~c~~'') =
     Some (extension_token (js ''subscript'') (js ''~b~'') (js ''b''))"
    using p [OF n(1,2), of "js ''~c~~''"] s(1,2) trim_plain by simp
  have e2: "subscript_tokenizer (js ''~c~~'') =
     Some (extension_token (js ''subscript'') (js ''~c~'') (js ''c''))"
    using p [OF n(3,4), of "[tilde]"] s(3,4) trim_plain by simp
  have e3: "subscript_tokenizer (js ''~text~~'') =
     Some (extension_token (js ''subscript'') (js ''~text~'') (js ''text''))"
    using p [OF n(5,6), of "[tilde]"] s(5,6) trim_plain by simp
  have d: "drop (length (js ''~b~'')) (js ''~b~~c~~'') = js ''~c~~''"
    "drop 1 (js ''~~text~~'') = js ''~text~~''"
    by (simp_all add: js_def)
  have "\<not> (\<forall>k<length (js ''~~text~~''). subscript_tokenizer (drop k (js ''~~text~~'')) = None)"
  proof
    assume "\<forall>k<length (js ''~~text~~''). subscript_tokenizer (drop k (js ''~~text~~'')) = None"
    moreover have "1 < length (js ''~~text~~'')" by (simp add: js_def)
    ultimately have "subscript_tokenizer (drop 1 (js ''~~text~~'')) = None" by blast
    with d(2) e3 show False by simp
  qed
  with e1 e2 e3 d show ?thesis by blast
qed

text \<open>
  C2. The superscript rule matches left-greedily. \<open>^abc^\<close> gives a superscript token
  with text \<open>abc\<close>. On \<open>^abc^def^\<close> the match is \<open>^abc^\<close> only: the rest of the
  input is \<open>def^\<close>, and the tokenizer declines at each of its positions, so it is left
  to the host tokenizer's literal text. In general a match is the opening caret, a
  non-empty run without a caret, and the first caret after it; the token's text is the
  trimmed run.
\<close>

theorem superscript_left_greedy:
  "superscript_tokenizer (js ''^abc^'') =
     Some (extension_token (js ''superscript'') (js ''^abc^'') (js ''abc''))
   \<and> superscript_tokenizer (js ''^abc^def^'') =
     Some (extension_token (js ''superscript'') (js ''^abc^'') (js ''abc''))
   \<and> drop (length (js ''^abc^'')) (js ''^abc^def^'') = js ''def^''
   \<and> superscript_tokenizer (js ''def^'') = None
   \<and> superscript_tokenizer (js ''ef^'') = None
   \<and> superscript_tokenizer (js ''f^'') = None
   \<and> superscript_tokenizer (js ''^'') = None
   \<and> (\<forall>src t. superscript_tokenizer src = Some t \<longrightarrow>
        (\<exists>inner rest. src = caret # inner @ caret # rest \<and> inner \<noteq> [] \<and> caret \<notin> set inner
           \<and> type t = Val (js ''superscript'') \<and> raw t = caret # inner @ [caret]
           \<and> text' t = Val (trim inner)))"
proof -
  have abc: "trim (js ''abc'') = js ''abc''"
    by (simp add: trim_def js_def is_space_def)
  have m: "\<And>rest. superscript_tokenizer (caret # js ''abc'' @ caret # rest) =
      Some (extension_token (js ''superscript'') (caret # js ''abc'' @ [caret]) (trim (js ''abc'')))"
    unfolding superscript_tokenizer_def
    by (rule tokenizer_prefix) (simp_all add: js_def caret_def)
  have s1: "js ''^abc^'' = caret # js ''abc'' @ [caret]"
    and s2: "js ''^abc^def^'' = caret # js ''abc'' @ caret # js ''def^''"
    by (simp_all add: js_def caret_def)
  have e1: "superscript_tokenizer (js ''^abc^'') =
     Some (extension_token (js ''superscript'') (js ''^abc^'') (js ''abc''))"
    using m [of "[]"] abc s1 by simp
  have e2: "superscript_tokenizer (js ''^abc^def^'') =
     Some (extension_token (js ''superscript'') (js ''^abc^'') (js ''abc''))"
    using m [of "js ''def^''"] abc s1 s2 by simp
  have e3: "drop (length (js ''^abc^'')) (js ''^abc^def^'') = js ''def^''"
    by (simp add: js_def)
  have n: "superscript_tokenizer (js ''def^'') = None" "superscript_tokenizer (js ''ef^'') = None"
    "superscript_tokenizer (js ''f^'') = None" "superscript_tokenizer (js ''^'') = None"
    unfolding superscript_tokenizer_def
    by (rule tokenizer_None, simp add: js_def caret_def)+
  have g: "\<forall>src t. superscript_tokenizer src = Some t \<longrightarrow>
        (\<exists>inner rest. src = caret # inner @ caret # rest \<and> inner \<noteq> [] \<and> caret \<notin> set inner
           \<and> type t = Val (js ''superscript'') \<and> raw t = caret # inner @ [caret]
           \<and> text' t = Val (trim inner))"
  proof (intro allI impI)
    fix src t
    assume "superscript_tokenizer src = Some t"
    from tokenizer_Some [OF this [unfolded superscript_tokenizer_def]]
    obtain inner rest where "src = caret # inner @ caret # rest" "inner \<noteq> []"
      "caret \<notin> set inner"
      "t = extension_token (js ''superscript'') (caret # inner @ [caret]) (trim inner)"
      by blast
    thus "\<exists>inner rest. src = caret # inner @ caret # rest \<and> inner \<noteq> [] \<and> caret \<notin> set inner
           \<and> type t = Val (js ''superscript'') \<and> raw t = caret # inner @ [caret]
           \<and> text' t = Val (trim inner)"
      by (auto simp: extension_token_def)
  qed
  show ?thesis using e1 e2 e3 n g by blast
qed

theorem superscript_left_greedy_witness:
  "superscript_tokenizer (js ''^abc^def^'') =
     Some (extension_token (js ''superscript'') (js ''^abc^'') (js ''abc''))
   \<and> (\<exists>inner rest. js ''^abc^def^'' = caret # inner @ caret # rest \<and> inner \<noteq> []
        \<and> caret \<notin> set inner \<and> js ''^abc^'' = caret # inner @ [caret]
        \<and> Val (js ''abc'') = Val (trim inner))"
proof -
  let ?t = "extension_token (js ''superscript'') (js ''^abc^'') (js ''abc'')"
  have e: "superscript_tokenizer (js ''^abc^def^'') = Some ?t"
    using superscript_left_greedy by blast
  moreover have "\<exists>inner rest. js ''^abc^def^'' = caret # inner @ caret # rest \<and> inner \<noteq> []
        \<and> caret \<notin> set inner \<and> type ?t = Val (js ''superscript'') \<and> raw ?t = caret # inner @ [caret]
        \<and> text' ?t = Val (trim inner)"
    using superscript_left_greedy e by blast
  ultimately show ?thesis by (simp add: extension_token_def)
qed

section \<open>The failure boundary\<close>

text \<open>
  C1. An exception raised while the tokens are rendered is not turned into the fallback
  node. On the token list that holds a \<open>table\<close> token with a \<open>null\<close> header the
  call of \<open>MarkdownParser\<close> itself raises the TypeError, whatever the source text. For
  every tokenizer, an exception of the loop over the tokens is the outcome of the call of
  \<open>MarkdownParser\<close>: it leaves the component before the \<open>ErrorBoundary\<close> element
  exists, so the boundary's \<open>render\<close> never runs; and no call of \<open>MarkdownParser\<close>
  returns the fallback node.
\<close>

theorem build_exception_escapes_boundary:
  "MarkdownParser (\<lambda>s. [null_header_table]) markdownText = ([], Inl TypeError)
   \<and> (\<forall>lexer. snd (MarkdownParser lexer markdownText) =
        (case snd (map_index (\<lambda>token index. renderToken token (dec index)) 0
                     (parsedTokens lexer markdownText)) of
           Inl e \<Rightarrow> Inl e
         | Inr ch \<Rightarrow> Inr (Element ErrorBoundary None []
             [Element ScrollView None
                [ContentContainerStyle [Styles ''container'', CustomStyles ''container'']]
                [Array ch]])))
   \<and> (\<forall>lexer w. MarkdownParser lexer markdownText \<noteq> (w, Inr fallback))"
proof (intro conjI allI)
  show "MarkdownParser (\<lambda>s. [null_header_table]) markdownText = ([], Inl TypeError)"
    by (simp add: MarkdownParser_def parsedTokens_def renderToken.simps null_header_table_def
        js_eq_iff throw_def bind_def)
next
  fix lexer
  show "snd (MarkdownParser lexer markdownText) =
        (case snd (map_index (\<lambda>token index. renderToken token (dec index)) 0
                     (parsedTokens lexer markdownText)) of
           Inl e \<Rightarrow> Inl e
         | Inr ch \<Rightarrow> Inr (Element ErrorBoundary None []
             [Element ScrollView None
                [ContentContainerStyle [Styles ''container'', CustomStyles ''container'']]
                [Array ch]]))"
    by (cases "map_index (\<lambda>token index. renderToken token (dec index)) 0
                     (parsedTokens lexer markdownText)")
       (auto simp: MarkdownParser_def bind_def return_def split: sum.splits)
next
  fix lexer w
  show "MarkdownParser lexer markdownText \<noteq> (w, Inr fallback)"
    by (auto simp: MarkdownParser_def bind_return_Inr fallback_def)
qed

section \<open>Line endings\<close>

lemma split_lines_nonempty: "split_lines s \<noteq> []"
  by (induction s rule: split_lines.induct) (auto split: if_splits elim: push.elims)

lemma join_push: "ls \<noteq> [] \<Longrightarrow> join_lines (push c ls) = c # join_lines ls"
  by (cases ls rule: join_lines.cases) auto

lemma normalizedMarkdown_join: "normalizedMarkdown s = join_lines (split_lines s)"
proof (induction s rule: split_lines.induct)
  case 1
  then show ?case by simp
next
  case (2 c)
  then show ?case by simp
next
  case (3 c d s)
  have ne: "split_lines s \<noteq> []" "split_lines (d # s) \<noteq> []" by (rule split_lines_nonempty)+
  show ?case
  proof (cases "c = cr \<and> d = lf")
    case True
    then show ?thesis using 3 ne by (cases "split_lines s") auto
  next
    case False
    note nf = this
    show ?thesis
    proof (cases "c = cr \<or> c = lf")
      case True
      then show ?thesis using 3 nf ne by (cases "split_lines (d # s)") auto
    next
      case False
      then show ?thesis using 3 nf ne by (simp add: join_push)
    qed
  qed
qed

lemma no_cr: "cr \<notin> set (normalizedMarkdown s)"
  by (induction s rule: normalizedMarkdown.induct) (auto simp: cr_def lf_def)

text \<open>
  C7. Two source texts that differ only in their line terminators (they have the same
  lines) are replaced by the same text before tokenization, and so give the same token
  list, whatever the tokenizer; the text that is tokenized holds no carriage return.
\<close>

theorem line_endings_irrelevant:
  "split_lines a = split_lines b \<Longrightarrow>
   normalizedMarkdown a = normalizedMarkdown b
   \<and> parsedTokens lexer a = parsedTokens lexer b
   \<and> cr \<notin> set (normalizedMarkdown a)"
proof -
  assume "split_lines a = split_lines b"
  hence "normalizedMarkdown a = normalizedMarkdown b"
    by (simp add: normalizedMarkdown_join)
  thus ?thesis using no_cr [of a] by (simp add: parsedTokens_def)
qed

theorem line_endings_irrelevant_witness:
  "split_lines (js ''a'' @ [cr, lf] @ js ''b'' @ [cr] @ js ''c'' @ [lf]) =
     split_lines (js ''a'' @ [lf] @ js ''b'' @ [lf] @ js ''c'' @ [lf])
   \<and> (\<forall>lexer. parsedTokens lexer (js ''a'' @ [cr, lf] @ js ''b'' @ [cr] @ js ''c'' @ [lf]) =
        parsedTokens lexer (js ''a'' @ [lf] @ js ''b'' @ [lf] @ js ''c'' @ [lf]))
   \<and> normalizedMarkdown (js ''a'' @ [cr, lf] @ js ''b'' @ [cr] @ js ''c'' @ [lf]) =
        js ''a'' @ [lf] @ js ''b'' @ [lf] @ js ''c'' @ [lf]"
proof -
  let ?a = "js ''a'' @ [cr, lf] @ js ''b'' @ [cr] @ js ''c'' @ [lf]"
  let ?b = "js ''a'' @ [lf] @ js ''b'' @ [lf] @ js ''c'' @ [lf]"
  have s: "split_lines ?a = split_lines ?b"
    by (simp add: js_def cr_def lf_def)
  have n: "normalizedMarkdown ?b = ?b"
    by (simp add: js_def cr_def lf_def)
  show ?thesis using line_endings_irrelevant [OF s] s n by simp
qed

section \<open>Termination\<close>

lemma maxs_map_le:
  assumes "\<And>x. x \<in> set xs \<Longrightarrow> f x \<le> 2 * g x"
  shows "maxs (map f xs) \<le> 2 * maxs (map g xs)"
proof (rule maxs_le)
  fix y assume "y \<in> set (map f xs)"
  then obtain x where x: "x \<in> set xs" "y = f x" by auto
  have "g x \<le> maxs (map g xs)" using x(1) by (intro maxs_ge) simp
  with assms [OF x(1)] x(2) show "y \<le> 2 * maxs (map g xs)" by simp
qed

lemma maxs_concat_le:
  assumes "\<And>r x. r \<in> set rs \<Longrightarrow> x \<in> set r \<Longrightarrow> f x \<le> 2 * g x"
  shows "maxs (concat (map (map f) rs)) \<le> 2 * maxs (concat (map (map g) rs))"
proof -
  have "maxs (map f (concat rs)) \<le> 2 * maxs (map g (concat rs))"
    using assms by (intro maxs_map_le) auto
  thus ?thesis by (simp add: map_concat)
qed

lemma rank_le_nesting: "rank t \<le> 2 * nesting t"
proof (induction t)
  case (Token ty rw tx tks hr dp its ord st tk ck hdr rws)
  have a: "maxs (elems (map_field (map rank) tks)) \<le> 2 * maxs (elems (map_field (map nesting) tks))"
    using Token(1) by (cases tks) (auto simp: elems_def intro!: maxs_map_le)
  have b: "maxs (elems (map_field (map rank) its)) \<le> 2 * maxs (elems (map_field (map nesting) its))"
    using Token(2) by (cases its) (auto simp: elems_def intro!: maxs_map_le)
  have c: "maxs (elems (map_field (map rank) hdr)) \<le> 2 * maxs (elems (map_field (map nesting) hdr))"
    using Token(3) by (cases hdr) (auto simp: elems_def intro!: maxs_map_le)
  have d: "maxs (concat (elems (map_field (map (map rank)) rws)))
      \<le> 2 * maxs (concat (elems (map_field (map (map nesting)) rws)))"
    using Token(4) by (cases rws) (auto simp: elems_def intro!: maxs_concat_le)
  show ?case using a b c d by (simp add: max_def)
qed

lemma chain_bound:
  "(renderToken_renderInlineTokens_renderListItems_rel ^^ n) c' c \<Longrightarrow> call_rank c' + n \<le> call_rank c"
proof (induction n arbitrary: c)
  case 0
  then show ?case by simp
next
  case (Suc n)
  then obtain m where "(renderToken_renderInlineTokens_renderListItems_rel ^^ n) c' m"
    "renderToken_renderInlineTokens_renderListItems_rel m c" by auto
  then show ?case using Suc.IH [of m] call_decreases [of m c] by simp
qed


text \<open>
  C9. Every call of \<open>renderToken\<close>, \<open>renderInlineTokens\<close> and \<open>renderListItems\<close>
  terminates, on every token tree: each argument \<open>c\<close> (of one of the three helpers) is
  accessible in the relation between a call and the recursive calls its body makes.
  Every recursive call has a strictly smaller \<open>call_rank\<close>, a measure of the height
  of the argument's token tree. So \<open>n\<close> calls nested in each other below
  \<open>renderToken t k\<close> have \<open>n \<le> 6 * nesting t\<close>: the depth of the recursion is
  bounded by the nesting depth of the tree alone.
\<close>

theorem render_helpers_terminate:
  "renderToken_renderInlineTokens_renderListItems_dom c
   \<and> (\<forall>c'. renderToken_renderInlineTokens_renderListItems_rel c' c \<longrightarrow>
         call_rank c' < call_rank c)
   \<and> (\<forall>n c'. (renderToken_renderInlineTokens_renderListItems_rel ^^ n) c' (Inl (t, k)) \<longrightarrow>
         n \<le> 6 * nesting t)"
proof (intro conjI allI impI)
  show "renderToken_renderInlineTokens_renderListItems_dom c" by (rule call_accessible)
next
  fix c' assume "renderToken_renderInlineTokens_renderListItems_rel c' c"
  thus "call_rank c' < call_rank c" by (rule call_decreases)
next
  fix n c'
  assume "(renderToken_renderInlineTokens_renderListItems_rel ^^ n) c' (Inl (t, k))"
  from chain_bound [OF this] have "n \<le> 3 * rank t" by simp
  also have "\<dots> \<le> 6 * nesting t" using rank_le_nesting [of t] by simp
  finally show "n \<le> 6 * nesting t" .
qed

theorem render_helpers_terminate_witness:
  "renderToken_renderInlineTokens_renderListItems_rel
     (Inr (Inl (tokens empty_paragraph))) (Inl (empty_paragraph, []))
   \<and> renderToken_renderInlineTokens_renderListItems_dom (Inl (empty_paragraph, []))
   \<and> call_rank (Inr (Inl (tokens empty_paragraph))) < call_rank (Inl (empty_paragraph, []))
   \<and> (1::nat) \<le> 6 * nesting empty_paragraph"
proof -
  have ty: "type empty_paragraph \<noteq> Val (js ''heading'')" "type empty_paragraph = Val (js ''paragraph'')"
    by (simp_all add: empty_paragraph_def js_eq_iff)
  have r: "renderToken_renderInlineTokens_renderListItems_rel
     (Inr (Inl (tokens empty_paragraph))) (Inl (empty_paragraph, []))"
    using ty by (rule renderToken_renderInlineTokens_renderListItems_rel.intros)
  hence r1: "(renderToken_renderInlineTokens_renderListItems_rel ^^ 1)
     (Inr (Inl (tokens empty_paragraph))) (Inl (empty_paragraph, []))" by auto
  show ?thesis
    using render_helpers_terminate [of "Inl (empty_paragraph, [])" empty_paragraph "[]"] r r1
    by blast
qed

section \<open>Lists\<close>

lemma renderListItems_Val:
  "renderListItems (Val its) ord lv =
     map_index (\<lambda>item index.
            bind (renderInlineTokens
                    (Val (contentTokens item))) (\<lambda>content.
            bind (map_index (\<lambda>listToken i.
                    bind (renderListItems (items listToken) (ordered listToken) (lv + 1)) (\<lambda>ch.
                    return (Element View
                      (Some (js ''nested-'' @ dec lv @ js ''-'' @ dec index @ js ''-'' @ dec i))
                      [Style [Styles ''nestedList'', CustomStyles ''nestedList'', MarginLeft 20]]
                      [Array ch])))
                  0 (nestedLists item)) (\<lambda>nested.
            return (Element View (Some (dec lv @ js ''-'' @ dec index))
              [Style [Styles ''listitemContainer'', CustomStyles ''listitemContainer'',
                 MarginLeft (10 * lv)]]
              [Element Text None [slot ''listitem'']
                 [Literal (Val (bullet ord item index)), Array content],
               Array nested])))) 0 its"
  by (simp add: renderListItems.simps)

lemma list_item_shape:
  assumes "renderListItems (Val its) ord lv = (w, Inr ns)" and "i < length its"
  shows "\<exists>wc content wn nested.
        renderInlineTokens
          (Val (contentTokens (its ! i))) = (wc, Inr content)
      \<and> map_index (\<lambda>listToken j.
            bind (renderListItems (items listToken) (ordered listToken) (lv + 1)) (\<lambda>ch.
            return (Element View
              (Some (js ''nested-'' @ dec lv @ js ''-'' @ dec i @ js ''-'' @ dec j))
              [Style [Styles ''nestedList'', CustomStyles ''nestedList'', MarginLeft 20]]
              [Array ch])))
          0 (nestedLists (its ! i)) = (wn, Inr nested)
      \<and> ns ! i = Element View (Some (dec lv @ js ''-'' @ dec i))
           [Style [Styles ''listitemContainer'', CustomStyles ''listitemContainer'',
              MarginLeft (10 * lv)]]
           [Element Text None [slot ''listitem'']
              [Literal (Val (bullet ord (its ! i) i)), Array content],
            Array nested]"
proof -
  note M = map_index_Inr [OF assms(1) [unfolded renderListItems_Val]]
  from M assms(2) show ?thesis
    by (auto simp: bind_Inr return_Inr)
qed

text \<open>
  C3. In every list the builder renders, at any nesting level, there is one node per item,
  and the bullet of item number \<open>N\<close> (counted from 1) is \<open>N. \<close> in decimal when the
  list is ordered, whatever the token's \<open>raw\<close> text and \<open>start\<close> number say;
  when the list is not ordered the bullet is the checked box for a checked task item, the
  empty box for an unchecked task item, and the round bullet otherwise, each followed by a
  space.
\<close>

theorem list_bullet_prefix:
  assumes "renderListItems (Val its) ord lv = (w, Inr ns)"
  shows "length ns = length its
    \<and> (\<forall>N. 1 \<le> N \<and> N \<le> length its \<longrightarrow>
         item_prefix (ns ! (N - 1)) =
           Some (if ord then dec N @ js ''. ''
                 else if task (its ! (N - 1))
                      then (if checked (its ! (N - 1)) then [0x2611, 0x20] else [0x2610, 0x20])
                      else [0x2022, 0x20]))"
proof (intro conjI allI impI)
  show "length ns = length its"
    using map_index_Inr [OF assms [unfolded renderListItems_Val]] by simp
next
  fix N assume "1 \<le> N \<and> N \<le> length its"
  hence i: "N - 1 < length its" and N: "N - 1 + 1 = N" by auto
  from list_item_shape [OF assms i] N
  show "item_prefix (ns ! (N - 1)) =
           Some (if ord then dec N @ js ''. ''
                 else if task (its ! (N - 1))
                      then (if checked (its ! (N - 1)) then [0x2611, 0x20] else [0x2610, 0x20])
                      else [0x2022, 0x20])"
    by (auto simp: bullet_def)
qed


theorem list_bullet_prefix_witness:
  "(\<exists>w ns. renderListItems (items ordered_list) (ordered ordered_list) 0 = (w, Inr ns)
      \<and> length ns = 2
      \<and> item_prefix (ns ! 0) = Some (js ''1. '') \<and> item_prefix (ns ! 1) = Some (js ''2. ''))
   \<and> (\<exists>w ns. renderListItems (items task_list) (ordered task_list) 0 = (w, Inr ns)
      \<and> length ns = 3
      \<and> item_prefix (ns ! 0) = Some [0x2611, 0x20] \<and> item_prefix (ns ! 1) = Some [0x2610, 0x20]
      \<and> item_prefix (ns ! 2) = Some [0x2022, 0x20])"
proof -
  let ?o = "[mk_item (js ''5. x'') False False [mk_block_text ''x''],
      mk_item (js ''6. y'') False False [mk_block_text ''y'']]"
  let ?t = "[mk_item (js ''- [x] p'') True True [mk_block_text ''p''],
      mk_item (js ''- [ ] q'') True False [mk_block_text ''q''],
      mk_item (js ''- r'') False False [mk_block_text ''r'']]"
  have io: "items ordered_list = Val ?o" "ordered ordered_list"
    and it: "items task_list = Val ?t" "\<not> ordered task_list"
    by (simp_all add: ordered_list_def task_list_def mk_list_def)
  obtain ns where o: "renderListItems (Val ?o) True 0 = ([], Inr ns)"
    by (simp add: eval_simps mk_item_def mk_block_text_def mk_text_def)
  obtain ms where t: "renderListItems (Val ?t) False 0 = ([], Inr ms)"
    by (simp add: eval_simps mk_item_def mk_block_text_def mk_text_def)
  have d: "dec 1 = js ''1''" "dec 2 = js ''2''"
    by (simp_all add: dec.simps digit_def js_def)
  have "length ns = 2 \<and> item_prefix (ns ! 0) = Some (js ''1. '')
      \<and> item_prefix (ns ! 1) = Some (js ''2. '')"
    using list_bullet_prefix [OF o, THEN conjunct1]
      list_bullet_prefix [OF o, THEN conjunct2, rule_format, of 1]
      list_bullet_prefix [OF o, THEN conjunct2, rule_format, of 2] d
    by (simp add: js_def)
  moreover have "length ms = 3 \<and> item_prefix (ms ! 0) = Some [0x2611, 0x20]
      \<and> item_prefix (ms ! 1) = Some [0x2610, 0x20] \<and> item_prefix (ms ! 2) = Some [0x2022, 0x20]"
    using list_bullet_prefix [OF t, THEN conjunct1]
      list_bullet_prefix [OF t, THEN conjunct2, rule_format, of 1]
      list_bullet_prefix [OF t, THEN conjunct2, rule_format, of 2]
      list_bullet_prefix [OF t, THEN conjunct2, rule_format, of 3]
    by (simp add: mk_item_def)
  ultimately show ?thesis using o t io it by simp
qed

text \<open>
  C4. The node of a list item is a container indented by 10 times the nesting level. Its
  first child is one text element with the bullet and then the inline rendering of the
  item's tokens that are not lists; its second child holds, for every token of the item
  that is a list, in order, a container indented by 20 that holds the list builder's
  result for that list at the next level. Lists and other tokens partition the item's
  tokens. For the doubly nested list \<open>- a\<close>, \<open>- b\<close>, \<open>- c\<close> the three items lie
  at the left offsets 0, 30 and 70, each with the round bullet.
\<close>

theorem list_item_nesting:
  "(\<forall>its ord lv w ns i. renderListItems (Val its) ord lv = (w, Inr ns) \<and> i < length its \<longrightarrow>
      (\<exists>wc content nested.
         renderInlineTokens
           (Val (contentTokens (its ! i))) =
           (wc, Inr content)
       \<and> ns ! i = Element View (Some (dec lv @ js ''-'' @ dec i))
           [Style [Styles ''listitemContainer'', CustomStyles ''listitemContainer'',
              MarginLeft (10 * lv)]]
           [Element Text None [slot ''listitem'']
              [Literal (Val (bullet ord (its ! i) i)), Array content],
            Array nested]
       \<and> length (contentTokens (its ! i)) +
           length (nestedLists (its ! i)) =
           length (elems (tokens (its ! i)))
       \<and> length nested =
           length (nestedLists (its ! i))
       \<and> (\<forall>j<length nested. \<exists>wn sub.
             renderListItems
               (items (nestedLists (its ! i) ! j))
               (ordered (nestedLists (its ! i) ! j))
               (lv + 1) = (wn, Inr sub)
           \<and> nested ! j = Element View
               (Some (js ''nested-'' @ dec lv @ js ''-'' @ dec i @ js ''-'' @ dec j))
               [Style [Styles ''nestedList'', CustomStyles ''nestedList'', MarginLeft 20]]
               [Array sub])))
   \<and> (\<exists>n. renderToken nested_list (js ''0'') = ([], Inr n)
        \<and> indents 0 n = [(0, [0x2022, 0x20]), (30, [0x2022, 0x20]), (70, [0x2022, 0x20])])"
proof (intro conjI allI impI)
  fix its ord lv w ns i
  assume a: "renderListItems (Val its) ord lv = (w, Inr ns) \<and> i < length its"
  let ?lists = "nestedLists (its ! i)"
  let ?others = "contentTokens (its ! i)"
  from list_item_shape [of its ord lv w ns i] a obtain wc content wn nested where
    c: "renderInlineTokens (Val ?others) = (wc, Inr content)" and
    m: "map_index (\<lambda>listToken j.
            bind (renderListItems (items listToken) (ordered listToken) (lv + 1)) (\<lambda>ch.
            return (Element View
              (Some (js ''nested-'' @ dec lv @ js ''-'' @ dec i @ js ''-'' @ dec j))
              [Style [Styles ''nestedList'', CustomStyles ''nestedList'', MarginLeft 20]]
              [Array ch])))
          0 ?lists = (wn, Inr nested)" and
    n: "ns ! i = Element View (Some (dec lv @ js ''-'' @ dec i))
           [Style [Styles ''listitemContainer'', CustomStyles ''listitemContainer'',
              MarginLeft (10 * lv)]]
           [Element Text None [slot ''listitem'']
              [Literal (Val (bullet ord (its ! i) i)), Array content],
            Array nested]"
    by blast
  note M = map_index_Inr [OF m]
  have p: "length ?others + length ?lists = length (elems (tokens (its ! i)))"
    using sum_length_filter_compl [of "\<lambda>t. type t \<noteq> Val (js ''list'')"]
    by (cases "tokens (its ! i)")
       (simp_all add: contentTokens_def nestedLists_def filter_tokens_def elems_def)
  have s: "\<forall>j<length nested. \<exists>wn sub.
             renderListItems (items (?lists ! j)) (ordered (?lists ! j)) (lv + 1) = (wn, Inr sub)
           \<and> nested ! j = Element View
               (Some (js ''nested-'' @ dec lv @ js ''-'' @ dec i @ js ''-'' @ dec j))
               [Style [Styles ''nestedList'', CustomStyles ''nestedList'', MarginLeft 20]]
               [Array sub]"
    using M by (auto simp: bind_return_Inr)
  show "\<exists>wc content nested.
         renderInlineTokens (Val ?others) = (wc, Inr content)
       \<and> ns ! i = Element View (Some (dec lv @ js ''-'' @ dec i))
           [Style [Styles ''listitemContainer'', CustomStyles ''listitemContainer'',
              MarginLeft (10 * lv)]]
           [Element Text None [slot ''listitem'']
              [Literal (Val (bullet ord (its ! i) i)), Array content],
            Array nested]
       \<and> length ?others + length ?lists = length (elems (tokens (its ! i)))
       \<and> length nested = length ?lists
       \<and> (\<forall>j<length nested. \<exists>wn sub.
             renderListItems (items (?lists ! j)) (ordered (?lists ! j)) (lv + 1) = (wn, Inr sub)
           \<and> nested ! j = Element View
               (Some (js ''nested-'' @ dec lv @ js ''-'' @ dec i @ js ''-'' @ dec j))
               [Style [Styles ''nestedList'', CustomStyles ''nestedList'', MarginLeft 20]]
               [Array sub])"
    using c n p s M by blast
next
  show "\<exists>n. renderToken nested_list (js ''0'') = ([], Inr n)
        \<and> indents 0 n = [(0, [0x2022, 0x20]), (30, [0x2022, 0x20]), (70, [0x2022, 0x20])]"
    by (simp add: eval_simps nested_list_def mk_list_def mk_item_def mk_block_text_def
        mk_text_def)
qed

theorem list_item_nesting_witness:
  "\<exists>w ns nested sub.
     renderListItems (items nested_list) (ordered nested_list) 0 = (w, Inr ns)
     \<and> ns ! 0 = Element View (Some (js ''0-0''))
         [Style [Styles ''listitemContainer'', CustomStyles ''listitemContainer'', MarginLeft 0]]
         [Element Text None [slot ''listitem'']
            [Literal (Val [0x2022, 0x20]), Array [Literal (Val (js ''a''))]],
          Array nested]
     \<and> nested = [Element View (Some (js ''nested-0-0-0''))
         [Style [Styles ''nestedList'', CustomStyles ''nestedList'', MarginLeft 20]] [Array sub]]
     \<and> length sub = 1"
proof -
  let ?inner = "mk_list False Undefined [mk_item (js ''- b'') False False [mk_block_text ''b'',
         mk_list False Undefined [mk_item (js ''- c'') False False [mk_block_text ''c'']]]]"
  let ?its = "[mk_item (js ''- a'') False False [mk_block_text ''a'', ?inner]]"
  have i: "items nested_list = Val ?its" "ordered nested_list = False"
    by (simp_all add: nested_list_def mk_list_def)
  obtain ns where r: "renderListItems (Val ?its) False 0 = ([], Inr ns)"
    by (simp add: eval_simps mk_list_def mk_item_def mk_block_text_def mk_text_def)
  have f: "contentTokens (?its ! 0) = [mk_block_text ''a'']"
    "nestedLists (?its ! 0) = [?inner]"
    by (simp_all add: contentTokens_def nestedLists_def filter_tokens_def mk_list_def mk_item_def
        mk_block_text_def js_eq_iff)
  have c: "renderInlineTokens (Val [mk_block_text ''a'']) = ([], Inr [Literal (Val (js ''a''))])"
    by (simp add: eval_simps mk_block_text_def mk_text_def)
  have d: "dec 0 = js ''0''" by (simp add: dec.simps digit_def js_def)
  from list_item_nesting [THEN conjunct1, rule_format, of ?its False 0 "[]" ns 0] r
  obtain wc content nested where
    "renderInlineTokens
       (Val (contentTokens (?its ! 0))) =
       (wc, Inr content)" and
    n: "ns ! 0 = Element View (Some (dec 0 @ js ''-'' @ dec 0))
           [Style [Styles ''listitemContainer'', CustomStyles ''listitemContainer'',
              MarginLeft (10 * 0)]]
           [Element Text None [slot ''listitem'']
              [Literal (Val (bullet False (?its ! 0) 0)), Array content],
            Array nested]" and
    l: "length nested =
          length (nestedLists (?its ! 0))" and
    s: "\<forall>j<length nested. \<exists>wn sub.
             renderListItems
               (items (nestedLists (?its ! 0) ! j))
               (ordered (nestedLists (?its ! 0) ! j))
               (0 + 1) = (wn, Inr sub)
           \<and> nested ! j = Element View
               (Some (js ''nested-'' @ dec 0 @ js ''-'' @ dec 0 @ js ''-'' @ dec j))
               [Style [Styles ''nestedList'', CustomStyles ''nestedList'', MarginLeft 20]]
               [Array sub]"
    by auto
  from this(1) f(1) c have content: "content = [Literal (Val (js ''a''))]" by simp
  from l f(2) have l1: "length nested = 1" by simp
  with s f(2) obtain wn sub where
    sub: "renderListItems (items ?inner) (ordered ?inner) (0 + 1) = (wn, Inr sub)" and
    n0: "nested ! 0 = Element View
               (Some (js ''nested-'' @ dec 0 @ js ''-'' @ dec 0 @ js ''-'' @ dec 0))
               [Style [Styles ''nestedList'', CustomStyles ''nestedList'', MarginLeft 20]]
               [Array sub]"
    by auto
  have "items ?inner = Val [mk_item (js ''- b'') False False [mk_block_text ''b'',
         mk_list False Undefined [mk_item (js ''- c'') False False [mk_block_text ''c'']]]]"
    by (simp add: mk_list_def)
  with sub have "renderListItems (Val [mk_item (js ''- b'') False False [mk_block_text ''b'',
         mk_list False Undefined [mk_item (js ''- c'') False False [mk_block_text ''c'']]]])
      (ordered ?inner) (0 + 1) = (wn, Inr sub)" by simp
  from map_index_Inr [OF this [unfolded renderListItems_Val]]
  have ls: "length sub = 1" by simp
  from l1 n0 have nested: "nested = [nested ! 0]" by (cases nested) auto
  have b: "bullet False (?its ! 0) 0 = [0x2022, 0x20]" by (simp add: bullet_def mk_item_def)
  show ?thesis
    using i r n content nested n0 ls b d by (auto simp: js_def)
qed

section \<open>Tables\<close>

lemma table_shape:
  assumes "type t = Val (js ''table'')" and "renderToken t k = (w, Inr n)"
  shows "\<exists>cols rs hcells body.
     header t = Val cols \<and> rows t = Val rs
     \<and> n = Element View (Some k) [slot ''table'']
           [Element View None [slot ''tableRow''] [Array hcells], Array body]
     \<and> length (Element View None [slot ''tableRow''] [Array hcells] # body) = 1 + length rs
     \<and> length hcells = length cols
     \<and> (\<forall>j<length cols. \<exists>wc ch.
           renderInlineTokens (tokens (cols ! j)) = (wc, Inr ch)
           \<and> hcells ! j = Element Text (Some (js ''header-'' @ dec j))
               [Style [Styles ''tableCell'', Styles ''tableHeader'', CustomStyles ''tableHeader'']]
               [Array ch])
     \<and> (\<forall>i<length rs. \<exists>cells.
           body ! i = Element View (Some (js ''row-'' @ dec i)) [slot ''tableRow''] [Array cells]
           \<and> length cells = length (rs ! i)
           \<and> (\<forall>j<length (rs ! i). \<exists>wc ch.
                 renderInlineTokens (tokens (rs ! i ! j)) = (wc, Inr ch)
                 \<and> cells ! j = Element Text (Some (js ''cell-'' @ dec i @ js ''-'' @ dec j))
                     [slot ''tableCell''] [Array ch]))"
proof -
  let ?hcell = "\<lambda>cell i. bind (renderInlineTokens (tokens cell)) (\<lambda>ch.
      return (Element Text (Some (js ''header-'' @ dec i))
        [Style [Styles ''tableCell'', Styles ''tableHeader'', CustomStyles ''tableHeader'']]
        [Array ch]))"
  let ?cell = "\<lambda>rowIndex cell cellIndex. bind (renderInlineTokens (tokens cell)) (\<lambda>ch.
      return (Element Text (Some (js ''cell-'' @ dec rowIndex @ js ''-'' @ dec cellIndex))
        [slot ''tableCell''] [Array ch]))"
  let ?row = "\<lambda>row rowIndex. bind (map_index (?cell rowIndex) 0 row) (\<lambda>cells.
      return (Element View (Some (js ''row-'' @ dec rowIndex)) [slot ''tableRow''] [Array cells]))"
  have eq: "renderToken t k =
      (case header t of
         Val cols \<Rightarrow> bind (map_index ?hcell 0 cols) (\<lambda>hcells.
           case rows t of
             Val rs \<Rightarrow> bind (map_index ?row 0 rs) (\<lambda>body.
               return (Element View (Some k) [slot ''table'']
                 [Element View None [slot ''tableRow''] [Array hcells], Array body]))
           | _ \<Rightarrow> throw TypeError)
       | _ \<Rightarrow> throw TypeError)"
    using assms(1) by (simp add: renderToken.simps js_eq_iff)
  from assms(2) eq obtain cols where cols: "header t = Val cols"
    by (cases "header t") auto
  from assms(2) eq cols obtain w1 hcells w2 where
    h: "map_index ?hcell 0 cols = (w1, Inr hcells)" and
    r: "(case rows t of
             Val rs \<Rightarrow> bind (map_index ?row 0 rs) (\<lambda>body.
               return (Element View (Some k) [slot ''table'']
                 [Element View None [slot ''tableRow''] [Array hcells], Array body]))
           | _ \<Rightarrow> throw TypeError) = (w2, Inr n)"
    by (auto simp: bind_Inr)
  from r obtain rs where rs: "rows t = Val rs" by (cases "rows t") auto
  from r rs obtain body where
    b: "map_index ?row 0 rs = (w2, Inr body)" and
    n: "n = Element View (Some k) [slot ''table'']
           [Element View None [slot ''tableRow''] [Array hcells], Array body]"
    by (auto simp: bind_return_Inr)
  note H = map_index_Inr [OF h]
  note B = map_index_Inr [OF b]
  have hc: "\<forall>j<length cols. \<exists>wc ch.
           renderInlineTokens (tokens (cols ! j)) = (wc, Inr ch)
           \<and> hcells ! j = Element Text (Some (js ''header-'' @ dec j))
               [Style [Styles ''tableCell'', Styles ''tableHeader'', CustomStyles ''tableHeader'']]
               [Array ch]"
    using H by (auto simp: bind_return_Inr)
  have bc: "\<forall>i<length rs. \<exists>cells.
           body ! i = Element View (Some (js ''row-'' @ dec i)) [slot ''tableRow''] [Array cells]
           \<and> length cells = length (rs ! i)
           \<and> (\<forall>j<length (rs ! i). \<exists>wc ch.
                 renderInlineTokens (tokens (rs ! i ! j)) = (wc, Inr ch)
                 \<and> cells ! j = Element Text (Some (js ''cell-'' @ dec i @ js ''-'' @ dec j))
                     [slot ''tableCell''] [Array ch])"
  proof (intro allI impI)
    fix i assume i: "i < length rs"
    with B obtain wi where "?row (rs ! i) (0 + i) = (wi, Inr (body ! i))" by blast
    then obtain cells where
      c: "map_index (?cell i) 0 (rs ! i) = (wi, Inr cells)" and
      bi: "body ! i = Element View (Some (js ''row-'' @ dec i)) [slot ''tableRow''] [Array cells]"
      by (auto simp: bind_return_Inr)
    note C = map_index_Inr [OF c]
    have "\<forall>j<length (rs ! i). \<exists>wc ch.
                 renderInlineTokens (tokens (rs ! i ! j)) = (wc, Inr ch)
                 \<and> cells ! j = Element Text (Some (js ''cell-'' @ dec i @ js ''-'' @ dec j))
                     [slot ''tableCell''] [Array ch]"
      using C by (auto simp: bind_return_Inr)
    with bi C show "\<exists>cells.
           body ! i = Element View (Some (js ''row-'' @ dec i)) [slot ''tableRow''] [Array cells]
           \<and> length cells = length (rs ! i)
           \<and> (\<forall>j<length (rs ! i). \<exists>wc ch.
                 renderInlineTokens (tokens (rs ! i ! j)) = (wc, Inr ch)
                 \<and> cells ! j = Element Text (Some (js ''cell-'' @ dec i @ js ''-'' @ dec j))
                     [slot ''tableCell''] [Array ch])" by blast
  qed
  show ?thesis using cols rs n H B hc bc by auto
qed

text \<open>
  C5. A table token that renders gives a table of 1 + |rows| rows: first the header row
  with one cell per entry of \<open>header\<close>, then one row per entry of \<open>rows\<close>, in their
  order, each with one cell per cell of that source row, whatever the width of the header;
  every cell holds the inline rendering of its own tokens.
\<close>

theorem table_grid:
  assumes "type t = Val (js ''table'')" and "renderToken t k = (w, Inr n)"
  shows "\<exists>cols rs hcells body.
     header t = Val cols \<and> rows t = Val rs
     \<and> n = Element View (Some k) [slot ''table'']
           [Element View None [slot ''tableRow''] [Array hcells], Array body]
     \<and> length (Element View None [slot ''tableRow''] [Array hcells] # body) = 1 + length rs
     \<and> length hcells = length cols
     \<and> (\<forall>j<length cols. \<exists>wc ch.
           renderInlineTokens (tokens (cols ! j)) = (wc, Inr ch)
           \<and> hcells ! j = Element Text (Some (js ''header-'' @ dec j))
               [Style [Styles ''tableCell'', Styles ''tableHeader'', CustomStyles ''tableHeader'']]
               [Array ch])
     \<and> (\<forall>i<length rs. \<exists>cells.
           body ! i = Element View (Some (js ''row-'' @ dec i)) [slot ''tableRow''] [Array cells]
           \<and> length cells = length (rs ! i)
           \<and> (\<forall>j<length (rs ! i). \<exists>wc ch.
                 renderInlineTokens (tokens (rs ! i ! j)) = (wc, Inr ch)
                 \<and> cells ! j = Element Text (Some (js ''cell-'' @ dec i @ js ''-'' @ dec j))
                     [slot ''tableCell''] [Array ch]))"
  using assms by (rule table_shape)

theorem table_grid_witness:
  "type ragged_table = Val (js ''table'')
   \<and> (\<exists>hcells body cells0 cells1.
        renderToken ragged_table (js ''0'') =
          ([], Inr (Element View (Some (js ''0'')) [slot ''table'']
             [Element View None [slot ''tableRow''] [Array hcells], Array body]))
        \<and> length hcells = 2 \<and> length body = 2
        \<and> body ! 0 = Element View (Some (js ''row-'' @ dec 0)) [slot ''tableRow''] [Array cells0]
        \<and> length cells0 = 1
        \<and> body ! 1 = Element View (Some (js ''row-'' @ dec 1)) [slot ''tableRow''] [Array cells1]
        \<and> length cells1 = 3)"
proof -
  have ty: "type ragged_table = Val (js ''table'')"
    by (simp add: ragged_table_def mk_table_def)
  obtain n where r: "renderToken ragged_table (js ''0'') = ([], Inr n)"
    by (simp add: eval_simps ragged_table_def mk_table_def mk_cell_def mk_text_def)
  have hr: "header ragged_table = Val [mk_cell [mk_text ''h1''], mk_cell [mk_text ''h2'']]"
    "rows ragged_table = Val [[mk_cell [mk_text ''a'']],
      [mk_cell [mk_text ''b''], mk_cell [mk_text ''c''], mk_cell [mk_text ''d'']]]"
    by (simp_all add: ragged_table_def mk_table_def)
  from table_grid [OF ty r] obtain cols rs hcells body where
    c: "header ragged_table = Val cols" "rows ragged_table = Val rs" and
    n: "n = Element View (Some (js ''0'')) [slot ''table'']
           [Element View None [slot ''tableRow''] [Array hcells], Array body]" and
    l: "length hcells = length cols" "length body = length rs" and
    bfull: "\<forall>i<length rs. \<exists>cells.
           body ! i = Element View (Some (js ''row-'' @ dec i)) [slot ''tableRow''] [Array cells]
           \<and> length cells = length (rs ! i)
           \<and> (\<forall>j<length (rs ! i). \<exists>wc ch.
                 renderInlineTokens (tokens (rs ! i ! j)) = (wc, Inr ch)
                 \<and> cells ! j = Element Text (Some (js ''cell-'' @ dec i @ js ''-'' @ dec j))
                     [slot ''tableCell''] [Array ch])"
    by auto
  have b: "\<And>i. i < length rs \<Longrightarrow> \<exists>cells.
           body ! i = Element View (Some (js ''row-'' @ dec i)) [slot ''tableRow''] [Array cells]
           \<and> length cells = length (rs ! i)"
    using bfull by blast
  from c hr have cols: "cols = [mk_cell [mk_text ''h1''], mk_cell [mk_text ''h2'']]"
    and rs: "rs = [[mk_cell [mk_text ''a'']],
      [mk_cell [mk_text ''b''], mk_cell [mk_text ''c''], mk_cell [mk_text ''d'']]]"
    by simp_all
  from b [of 0] b [of 1] rs obtain cells0 cells1 where
    "body ! 0 = Element View (Some (js ''row-'' @ dec 0)) [slot ''tableRow''] [Array cells0]"
    "length cells0 = 1"
    "body ! 1 = Element View (Some (js ''row-'' @ dec 1)) [slot ''tableRow''] [Array cells1]"
    "length cells1 = 3"
    by auto
  moreover have "length hcells = 2" "length body = 2" using l cols rs by simp_all
  ultimately show ?thesis using ty r n by blast
qed

section \<open>Inline runs\<close>

lemma flat_concat: "flat xs = concat (map splice xs)"
  by (induction xs rule: flat.induct) auto

lemma renderToken_not_Array: "renderToken t k = (w, Inr n) \<Longrightarrow> \<not> is_Array n"
proof (cases "type t = Val (js ''table'')")
  case True
  assume "renderToken t k = (w, Inr n)"
  from table_shape [OF True this] show ?thesis by auto
next
  case False
  assume "renderToken t k = (w, Inr n)"
  with False show ?thesis
    by (auto simp: renderToken.simps bind_return_Inr bind_Inr return_Inr console_warn_def
        split: if_splits)
qed

lemma renderInlineTokens_Val:
  "renderInlineTokens (Val ts) =
     bind (map_index (\<lambda>t i.
             if type t = Val (js ''text'') \<and> truthy (tokens t)
             then bind (renderInlineTokens (tokens t)) (\<lambda>ns. return (Array ns))
             else renderToken t (js ''in-'' @ dec i)) 0 ts)
          (\<lambda>xs. return (flat xs))"
  by (simp add: renderInlineTokens.simps)

lemma inline_fragments:
  assumes "renderInlineTokens (Val ts) = (w, Inr ns)"
  shows "\<exists>frags. length frags = length ts \<and> ns = concat frags
     \<and> (\<forall>i<length ts.
          if type (ts ! i) = Val (js ''text'') \<and> truthy (tokens (ts ! i))
          then \<exists>wi. renderInlineTokens (tokens (ts ! i)) = (wi, Inr (frags ! i))
          else \<exists>wi n. renderToken (ts ! i) (js ''in-'' @ dec i) = (wi, Inr n) \<and> frags ! i = [n])"
proof -
  let ?g = "\<lambda>t i. if type t = Val (js ''text'') \<and> truthy (tokens t)
             then bind (renderInlineTokens (tokens t)) (\<lambda>ns. return (Array ns))
             else renderToken t (js ''in-'' @ dec i)"
  from assms obtain xs where m: "map_index ?g 0 ts = (w, Inr xs)" and ns: "ns = flat xs"
    unfolding renderInlineTokens_Val by (auto simp: bind_return_Inr)
  note M = map_index_Inr [OF m]
  have "\<forall>i<length ts.
          if type (ts ! i) = Val (js ''text'') \<and> truthy (tokens (ts ! i))
          then \<exists>wi. renderInlineTokens (tokens (ts ! i)) = (wi, Inr (map splice xs ! i))
          else \<exists>wi n. renderToken (ts ! i) (js ''in-'' @ dec i) = (wi, Inr n)
                 \<and> map splice xs ! i = [n]"
  proof (intro allI impI)
    fix i assume i: "i < length ts"
    with M obtain wi where g: "?g (ts ! i) (0 + i) = (wi, Inr (xs ! i))" by blast
    show "if type (ts ! i) = Val (js ''text'') \<and> truthy (tokens (ts ! i))
          then \<exists>wi. renderInlineTokens (tokens (ts ! i)) = (wi, Inr (map splice xs ! i))
          else \<exists>wi n. renderToken (ts ! i) (js ''in-'' @ dec i) = (wi, Inr n)
                 \<and> map splice xs ! i = [n]"
    proof (cases "type (ts ! i) = Val (js ''text'') \<and> truthy (tokens (ts ! i))")
      case True
      with g obtain sub where "renderInlineTokens (tokens (ts ! i)) = (wi, Inr sub)"
        "xs ! i = Array sub" by (auto simp: bind_return_Inr)
      with True i M show ?thesis by auto
    next
      case False
      with g have r: "renderToken (ts ! i) (js ''in-'' @ dec i) = (wi, Inr (xs ! i))"
        by (simp split: if_splits)
      from renderToken_not_Array [OF r] have "splice (xs ! i) = [xs ! i]"
        by (cases "xs ! i") auto
      with False r i M show ?thesis by auto
    qed
  qed
  with M ns show ?thesis
    by (intro exI [of _ "map splice xs"]) (simp add: flat_concat)
qed

lemma inline_flat:
  "renderInlineTokens f = (w, Inr ns) \<Longrightarrow> list_all (\<lambda>n. \<not> is_Array n) ns"
proof (induction "below f" arbitrary: f w ns rule: less_induct)
  case less
  show ?case
  proof (cases f)
    case Undefined
    with less.prems show ?thesis by (simp add: renderInlineTokens.simps return_def)
  next
    case Null
    with less.prems show ?thesis by (simp add: renderInlineTokens.simps)
  next
    case (Val ts)
    from inline_fragments [OF less.prems [unfolded Val]] obtain frags where
      l: "length frags = length ts" and ns: "ns = concat frags" and
      f: "\<forall>i<length ts.
          if type (ts ! i) = Val (js ''text'') \<and> truthy (tokens (ts ! i))
          then \<exists>wi. renderInlineTokens (tokens (ts ! i)) = (wi, Inr (frags ! i))
          else \<exists>wi n. renderToken (ts ! i) (js ''in-'' @ dec i) = (wi, Inr n) \<and> frags ! i = [n]"
      by blast
    have "\<forall>i<length frags. list_all (\<lambda>n. \<not> is_Array n) (frags ! i)"
    proof (intro allI impI)
      fix i assume "i < length frags"
      hence i: "i < length ts" using l by simp
      show "list_all (\<lambda>n. \<not> is_Array n) (frags ! i)"
      proof (cases "type (ts ! i) = Val (js ''text'') \<and> truthy (tokens (ts ! i))")
        case True
        with f [rule_format, OF i] obtain wi where
          r: "renderInlineTokens (tokens (ts ! i)) = (wi, Inr (frags ! i))"
          by auto
        have "below (tokens (ts ! i)) < below f"
          using step_inline_text [of "ts ! i" ts] i Val by simp
        from less.hyps [OF this r] show ?thesis .
      next
        case False
        with f [rule_format, OF i] obtain wi n where
          "renderToken (ts ! i) (js ''in-'' @ dec i) = (wi, Inr n)" "frags ! i = [n]"
          by auto
        thus ?thesis using renderToken_not_Array by simp
      qed
    qed
    hence "\<forall>fr \<in> set frags. list_all (\<lambda>n. \<not> is_Array n) fr"
      by (auto simp: in_set_conv_nth)
    thus ?thesis unfolding ns by (induction frags) auto
  qed
qed

text \<open>
  C8. The result of the inline renderer on a token list is one flat sequence (none of
  its elements is an array): the concatenation, in the order of the tokens, of one
  fragment list per token. For a \<open>text\<close> token that carries child tokens the fragments
  are the inline rendering of its children, not its literal text; for every other token
  the fragment is the one node the token dispatcher returns for it.
\<close>

theorem inline_run_flat:
  assumes "renderInlineTokens (Val ts) = (w, Inr ns)"
  shows "list_all (\<lambda>n. \<not> is_Array n) ns
     \<and> (\<exists>frags. length frags = length ts \<and> ns = concat frags
     \<and> (\<forall>i<length ts.
          if type (ts ! i) = Val (js ''text'') \<and> truthy (tokens (ts ! i))
          then \<exists>wi. renderInlineTokens (tokens (ts ! i)) = (wi, Inr (frags ! i))
          else \<exists>wi n. renderToken (ts ! i) (js ''in-'' @ dec i) = (wi, Inr n) \<and> frags ! i = [n]))"
  using inline_flat [OF assms] inline_fragments [OF assms] by blast


theorem inline_run_flat_witness:
  "renderInlineTokens (Val inline_run) =
     ([], Inr [Literal (Val (js ''x'')), Literal (Val (js ''a'')),
        Element Text (Some (js ''in-1'')) [slot ''strong''] [Array [Literal (Val (js ''b''))]],
        Literal (Val (js ''y''))])
   \<and> list_all (\<lambda>n. \<not> is_Array n)
        [Literal (Val (js ''x'')), Literal (Val (js ''a'')),
         Element Text (Some (js ''in-1'')) [slot ''strong''] [Array [Literal (Val (js ''b''))]],
         Literal (Val (js ''y''))]
   \<and> renderInlineTokens (tokens (inline_run ! 1)) =
        ([], Inr [Literal (Val (js ''a'')),
           Element Text (Some (js ''in-1'')) [slot ''strong''] [Array [Literal (Val (js ''b''))]]])"
proof -
  have r: "renderInlineTokens (Val inline_run) =
     ([], Inr [Literal (Val (js ''x'')), Literal (Val (js ''a'')),
        Element Text (Some (js ''in-1'')) [slot ''strong''] [Array [Literal (Val (js ''b''))]],
        Literal (Val (js ''y''))])"
    by (simp add: eval_simps inline_run_def mk_text_def mk_strong_def) (simp add: js_def)
  have s: "renderInlineTokens (tokens (inline_run ! 1)) =
        ([], Inr [Literal (Val (js ''a'')),
           Element Text (Some (js ''in-1'')) [slot ''strong''] [Array [Literal (Val (js ''b''))]]])"
    by (simp add: eval_simps inline_run_def mk_text_def mk_strong_def) (simp add: js_def)
  from inline_run_flat [OF r] r s show ?thesis by blast
qed

section \<open>Unknown token kinds\<close>

lemma renderToken_unknown:
  "type u \<notin> set (map Val known_types) \<Longrightarrow>
   renderToken u k = ([js ''Unsupported token type: '' @ to_string (type u)], Inr (Literal Null))"
  by (simp add: renderToken.simps known_types_def console_warn_def bind_def return_def)

lemma same_view_refl [simp]: "same_view r r"
  by (simp add: same_view_def)

lemma same_view_return: "displayed n = displayed n' \<Longrightarrow> same_view (return n) (return n')"
  by (simp add: same_view_def rendered_def diagnostics_def return_def)

lemma same_view_bind:
  "(\<And>a. same_view (f a) (f' a)) \<Longrightarrow> same_view (bind m f) (bind m f')"
proof -
  assume h: "\<And>a. same_view (f a) (f' a)"
  obtain w r where m: "m = (w, r)" by (cases m)
  show ?thesis
  proof (cases r)
    case (Inl e)
    with m show ?thesis by (simp add: bind_def)
  next
    case (Inr a)
    obtain w1 r1 where 1: "f a = (w1, r1)" by (cases "f a")
    obtain w2 r2 where 2: "f' a = (w2, r2)" by (cases "f' a")
    from h [of a] 1 2 m Inr show ?thesis
      by (simp add: same_view_def rendered_def diagnostics_def bind_def)
  qed
qed

lemma same_view_case:
  "(\<And>x. v = Val x \<Longrightarrow> same_view (f x) (f' x)) \<Longrightarrow>
   same_view (case v of Val x \<Rightarrow> f x | _ \<Rightarrow> throw e) (case v of Val x \<Rightarrow> f' x | _ \<Rightarrow> throw e)"
  by (cases v) simp_all

lemma same_view_bind_return:
  "(\<And>a. displayed (g a) = displayed (g' a)) \<Longrightarrow>
   same_view (bind m (\<lambda>a. return (g a))) (bind m (\<lambda>a. return (g' a)))"
  by (rule same_view_bind) (simp add: same_view_return)

lemma rendered_key: "same_view (renderToken t k) (renderToken t k')"
proof (cases "type t = Val (js ''table'')")
  case True
  show ?thesis
    apply (simp add: renderToken.simps True js_eq_iff)
    apply (rule same_view_case)
    apply (rule same_view_bind)
    apply (rule same_view_case)
    apply (rule same_view_bind_return)
    apply simp
    done
next
  case False
  then show ?thesis
    by (simp add: renderToken.simps same_view_bind_return same_view_return)
qed


lemma same_views_cons:
  "same_view m m' \<Longrightarrow> same_views r r' \<Longrightarrow>
   same_views (bind m (\<lambda>y. bind r (\<lambda>ys. return (y # ys))))
     (bind m' (\<lambda>y. bind r' (\<lambda>ys. return (y # ys))))"
  by (cases m; cases m'; cases r; cases r')
     (auto simp: same_view_def same_views_def rendered_def rendered_all_def diagnostics_def
        bind_def return_def split: sum.splits)

lemma map_index_shift:
  assumes "\<And>x i j. same_view (f x i) (f x j)"
  shows "same_views (map_index f i xs) (map_index f j xs)"
proof (induction xs arbitrary: i j)
  case Nil
  show ?case by (simp add: same_views_def)
next
  case (Cons x xs)
  show ?case
    using assms [of x i j] Cons [of "Suc i" "Suc j"] by (simp add: same_views_cons)
qed

lemma skip_unknown:
  assumes key: "\<And>x i j. same_view (f x i) (f x j)"
    and u: "\<And>i. f u i = ([msg], Inr (Literal Null))"
  shows "rendered_all (map_index f 0 (xs @ u # ys)) = rendered_all (map_index f 0 (xs @ ys))
    \<and> (\<exists>wy. diagnostics (map_index f 0 (xs @ ys)) = diagnostics (map_index f 0 xs) @ wy
          \<and> diagnostics (map_index f 0 (xs @ u # ys)) =
              diagnostics (map_index f 0 xs) @ (if returns (map_index f 0 xs) then [msg] else []) @ wy)"
proof -
  obtain wx rx where A: "map_index f 0 xs = (wx, rx)" by (cases "map_index f 0 xs")
  obtain w2 r2 where B: "map_index f (Suc (length xs)) ys = (w2, r2)"
    by (cases "map_index f (Suc (length xs)) ys")
  obtain w3 r3 where C: "map_index f (length xs) ys = (w3, r3)"
    by (cases "map_index f (length xs) ys")
  from map_index_shift [of f "Suc (length xs)" ys "length xs", OF key] B C
  have w: "w2 = w3" and r: "rendered_all (w2, r2) = rendered_all (w3, r3)"
    by (auto simp: same_views_def diagnostics_def)
  show ?thesis
  proof (cases rx)
    case (Inl e)
    with A show ?thesis
      by (simp add: map_index_append rendered_all_def diagnostics_def returns_def bind_def)
  next
    case (Inr a)
    with A B C w r u [of "length xs"] show ?thesis
      by (cases r2; cases r3)
         (auto simp: map_index_append rendered_all_def diagnostics_def returns_def bind_def
            return_def)
  qed
qed

lemma displayed_flat: "concat (map displayed (flat xs)) = concat (map displayed xs)"
  by (induction xs rule: flat.induct) auto


lemma component_view:
  "rendered (MarkdownParser (\<lambda>s. ts) src) =
     (case rendered_all (map_index (\<lambda>token index. renderToken token (dec index)) 0 ts) of
        Inl e \<Rightarrow> Inl e
      | Inr sh \<Rightarrow> Inr [ShownElement ErrorBoundary []
          [ShownElement ScrollView
             [ContentContainerStyle [Styles ''container'', CustomStyles ''container'']] sh]])"
  "diagnostics (MarkdownParser (\<lambda>s. ts) src) =
     diagnostics (map_index (\<lambda>token index. renderToken token (dec index)) 0 ts)"
  "returns (MarkdownParser (\<lambda>s. ts) src) =
     returns (map_index (\<lambda>token index. renderToken token (dec index)) 0 ts)"
  by (cases "map_index (\<lambda>token index. renderToken token (dec index)) 0 ts";
      auto simp: MarkdownParser_def parsedTokens_def rendered_def rendered_all_def diagnostics_def
        returns_def bind_def return_def split: sum.splits)+

lemma inline_view:
  "rendered_all (renderInlineTokens (Val ts)) =
     rendered_all (map_index (\<lambda>t i.
             if type t = Val (js ''text'') \<and> truthy (tokens t)
             then bind (renderInlineTokens (tokens t)) (\<lambda>ns. return (Array ns))
             else renderToken t (js ''in-'' @ dec i)) 0 ts)"
  unfolding renderInlineTokens_Val
  by (cases "map_index (\<lambda>t i.
             if type t = Val (js ''text'') \<and> truthy (tokens t)
             then bind (renderInlineTokens (tokens t)) (\<lambda>ns. return (Array ns))
             else renderToken t (js ''in-'' @ dec i)) 0 ts")
     (auto simp: rendered_all_def bind_def return_def displayed_flat split: sum.splits)

text \<open>
  C6. A token whose kind has no case in the dispatcher is rendered as \<open>null\<close>, which
  shows nothing, with one diagnostic and without an exception. A token list that holds
  such a token shows exactly what the list without it shows (or fails with the same
  exception, raised by another token): at the top level of the component and in an inline
  run. The siblings' nodes are the same up to their index keys. The diagnostics are those
  of the list without the token, with the one message added at the token's place when the
  tokens before it rendered.
\<close>

theorem unknown_token_skipped:
  assumes "type u \<notin> set (map Val known_types)"
  shows "renderToken u k =
      ([js ''Unsupported token type: '' @ to_string (type u)], Inr (Literal Null))
    \<and> displayed (Literal Null) = []
    \<and> rendered (MarkdownParser (\<lambda>s. xs @ u # ys) src) =
        rendered (MarkdownParser (\<lambda>s. xs @ ys) src)
    \<and> rendered_all (renderInlineTokens (Val (xs @ u # ys))) =
        rendered_all (renderInlineTokens (Val (xs @ ys)))
    \<and> (\<exists>wy. diagnostics (MarkdownParser (\<lambda>s. xs @ ys) src) =
               diagnostics (MarkdownParser (\<lambda>s. xs) src) @ wy
          \<and> diagnostics (MarkdownParser (\<lambda>s. xs @ u # ys) src) =
               diagnostics (MarkdownParser (\<lambda>s. xs) src) @
               (if returns (MarkdownParser (\<lambda>s. xs) src)
                then [js ''Unsupported token type: '' @ to_string (type u)] else []) @ wy)"
proof -
  let ?msg = "js ''Unsupported token type: '' @ to_string (type u)"
  let ?top = "\<lambda>token index. renderToken token (dec index)"
  let ?inl = "\<lambda>t i. if type t = Val (js ''text'') \<and> truthy (tokens t)
             then bind (renderInlineTokens (tokens t)) (\<lambda>ns. return (Array ns))
             else renderToken t (js ''in-'' @ dec i)"
  note U = renderToken_unknown [OF assms]
  have nt: "type u \<noteq> Val (js ''text'')"
    using assms by (auto simp: known_types_def)
  have top: "\<And>x i j. same_view (?top x i) (?top x j)" by (rule rendered_key)
  have inl: "\<And>x i j. same_view (?inl x i) (?inl x j)" by (simp add: rendered_key)
  have utop: "\<And>i. ?top u i = ([?msg], Inr (Literal Null))" by (rule U)
  have uinl: "\<And>i. ?inl u i = ([?msg], Inr (Literal Null))" using nt U by simp
  note T = skip_unknown [of ?top u ?msg xs ys, OF top utop]
  note I = skip_unknown [of ?inl u ?msg xs ys, OF inl uinl]
  show ?thesis
    using U T I by (simp add: component_view inline_view)
qed

theorem unknown_token_skipped_witness:
  "type html_token \<notin> set (map Val known_types)
   \<and> renderToken html_token (js ''1'') =
       ([js ''Unsupported token type: html''], Inr (Literal Null))
   \<and> rendered (MarkdownParser (\<lambda>s. [hr_token, html_token, hr_token]) []) =
       rendered (MarkdownParser (\<lambda>s. [hr_token, hr_token]) [])
   \<and> rendered (MarkdownParser (\<lambda>s. [hr_token, hr_token]) []) =
       Inr [ShownElement ErrorBoundary []
          [ShownElement ScrollView
             [ContentContainerStyle [Styles ''container'', CustomStyles ''container'']]
             [ShownElement View [slot ''hr''] [], ShownElement View [slot ''hr''] []]]]
   \<and> diagnostics (MarkdownParser (\<lambda>s. [hr_token, html_token, hr_token]) []) =
       [js ''Unsupported token type: html'']"
proof -
  have h: "type html_token \<notin> set (map Val known_types)"
    by (simp add: html_token_def known_types_def js_eq_iff)
  have m: "js ''Unsupported token type: '' @ to_string (type html_token) =
      js ''Unsupported token type: html''"
    by (simp add: html_token_def to_string_def js_def)
  have e: "MarkdownParser (\<lambda>s. [hr_token]) [] =
      ([], Inr (Element ErrorBoundary None []
        [Element ScrollView None
           [ContentContainerStyle [Styles ''container'', CustomStyles ''container'']]
           [Array [Element View (Some (dec 0)) [slot ''hr''] []]]]))"
    "MarkdownParser (\<lambda>s. [hr_token, hr_token]) [] =
      ([], Inr (Element ErrorBoundary None []
        [Element ScrollView None
           [ContentContainerStyle [Styles ''container'', CustomStyles ''container'']]
           [Array [Element View (Some (dec 0)) [slot ''hr''] [],
                   Element View (Some (dec (Suc 0))) [slot ''hr''] []]]]))"
    by (simp_all add: MarkdownParser_def parsedTokens_def renderToken.simps hr_token_def
        js_eq_iff bind_def return_def)
  from unknown_token_skipped [OF h, of "js ''1''" "[hr_token]" "[hr_token]" "[]"] m e
  show ?thesis
    using h by (auto simp: rendered_def diagnostics_def returns_def)
qed


end
